theory Spec2Isabelle
  imports Main
begin

section \<open>Errors\<close>

text \<open>
  The six sentinel errors of package runner, an opaque error made by \<^verbatim>\<open>errors.New\<close> or by
  a collaborator (\<open>ErrorString\<close>), and the value \<^verbatim>\<open>fmt.Errorf\<close> builds around a \<^verbatim>\<open>%w\<close>
  verb: \<open>Wrap pre e post\<close> prints as \<open>pre\<close>, the wrapped error, \<open>post\<close>, and unwraps to
  \<open>e\<close>. \<open>Panic\<close> stands for a run-time panic of the Go program (a nil interface called, a
  failed type assertion): the call does not return.
\<close>

datatype error =
    ErrMaxTurnsExceeded
  | ErrModelProviderRequired
  | ErrGuardrailTripwire
  | ErrAgentMissingInstructions
  | ErrInvalidHandoffInput
  | ErrInvalidOutputFormat
  | ErrorString string
  | Wrap string error string
  | Panic string

fun Error :: "error \<Rightarrow> string" where
  "Error ErrMaxTurnsExceeded = ''maximum turns exceeded''"
| "Error ErrModelProviderRequired = ''model provider is required''"
| "Error ErrGuardrailTripwire = ''guardrail tripwire triggered''"
| "Error ErrAgentMissingInstructions = ''agent has no instructions''"
| "Error ErrInvalidHandoffInput = ''invalid handoff input''"
| "Error ErrInvalidOutputFormat = ''invalid output format''"
| "Error (ErrorString s) = s"
| "Error (Wrap pre e post) = pre @ Error e @ post"
| "Error (Panic s) = s"

text \<open>\<^verbatim>\<open>errors.Is\<close>: the error itself or one reached by unwrapping equals the target.\<close>

fun errors_Is :: "error \<Rightarrow> error \<Rightarrow> bool" where
  "errors_Is (Wrap pre e post) target = (Wrap pre e post = target \<or> errors_Is e target)"
| "errors_Is e target = (e = target)"

text \<open>\<^verbatim>\<open>strings.Contains\<close>, used by the tests on error messages.\<close>

fun has_prefix :: "string \<Rightarrow> string \<Rightarrow> bool" where
  "has_prefix s [] = True"
| "has_prefix [] (c # p) = False"
| "has_prefix (d # s) (c # p) = (d = c \<and> has_prefix s p)"

fun strings_Contains :: "string \<Rightarrow> string \<Rightarrow> bool" where
  "strings_Contains [] sub = (sub = [])"
| "strings_Contains (c # s) sub = (has_prefix (c # s) sub \<or> strings_Contains s sub)"

text \<open>The verb \<^verbatim>\<open>%d\<close> of \<^verbatim>\<open>fmt\<close>.\<close>

definition digit_char :: "nat \<Rightarrow> char" where
  "digit_char d = char_of (48 + d)"

function itoa :: "nat \<Rightarrow> string" where
  "itoa n = (if n < 10 then [digit_char n] else itoa (n div 10) @ [digit_char (n mod 10)])"
  by pat_completeness auto
termination
  by (relation "measure id") auto

declare itoa.simps [simp del]

section \<open>Messages, usage and the completion service\<close>

record FunctionCall =
  fn_Name :: string
  fn_Arguments :: string

record ToolCall =
  ID :: string
  Type :: string
  Function :: FunctionCall

record Message =
  Role :: string
  Content :: string
  ToolCalls :: "ToolCall list"
  ToolCallID :: string
  msg_Name :: string

text \<open>Token counts are Go \<^verbatim>\<open>int\<close>s; they are summed, never compared, and are modelled unbounded.\<close>

record Usage =
  PromptTokens :: int
  CompletionTokens :: int
  TotalTokens :: int

record Response =
  resp_Message :: Message
  resp_Usage :: Usage

section \<open>Dynamic values and the minimal schema validator (package handoff)\<close>

text \<open>
  A value of Go's \<^verbatim>\<open>any\<close> by its dynamic type, as far as the validator's type assertions
  tell them apart. \<^verbatim>\<open>encoding/json\<close> decodes into \<open>GoNil\<close>, \<open>GoBool\<close>, \<open>GoFloat64\<close>,
  \<open>GoString\<close>, \<open>GoSlice\<close> and \<open>GoMap\<close>; a schema written in Go may hold the others.
  A map is an association list in the order the run-time happens to range over it.
\<close>

datatype goval =
    GoNil
  | GoBool bool
  | GoFloat64 int
  | GoInt int
  | GoString string
  | GoStringSlice "string list"
  | GoSlice "goval list"
  | GoMap "(string \<times> goval) list"
  | GoOther

type_synonym JSONSchema = "(string \<times> goval) list"

fun isValidType :: "goval \<Rightarrow> string \<Rightarrow> bool" where
  "isValidType v expectedType =
    (if expectedType = ''string'' then (case v of GoString _ \<Rightarrow> True | _ \<Rightarrow> False)
     else if expectedType = ''number'' \<or> expectedType = ''integer'' then
       (case v of GoFloat64 _ \<Rightarrow> True | GoInt _ \<Rightarrow> True | _ \<Rightarrow> False)
     else if expectedType = ''boolean'' then (case v of GoBool _ \<Rightarrow> True | _ \<Rightarrow> False)
     else if expectedType = ''array'' then (case v of GoSlice _ \<Rightarrow> True | _ \<Rightarrow> False)
     else if expectedType = ''object'' then (case v of GoMap _ \<Rightarrow> True | _ \<Rightarrow> False)
     else True)"

definition validateFieldType :: "string \<Rightarrow> goval \<Rightarrow> (string \<times> goval) list \<Rightarrow> error option" where
  "validateFieldType field v properties =
    (case map_of properties field of
       Some (GoMap fieldSchema) \<Rightarrow>
         (case map_of fieldSchema ''type'' of
            Some (GoString expectedType) \<Rightarrow>
              if \<not> isValidType v expectedType
              then Some (ErrorString (''invalid type for field '' @ field @ '': expected '' @ expectedType))
              else None
          | _ \<Rightarrow> None)
     | _ \<Rightarrow> None)"

fun validateFieldTypes_loop :: "(string \<times> goval) list \<Rightarrow> (string \<times> goval) list \<Rightarrow> error option" where
  "validateFieldTypes_loop [] properties = None"
| "validateFieldTypes_loop ((field, v) # rest) properties =
    (case validateFieldType field v properties of
       Some err \<Rightarrow> Some err
     | None \<Rightarrow> validateFieldTypes_loop rest properties)"

definition validateFieldTypes :: "(string \<times> goval) list \<Rightarrow> JSONSchema \<Rightarrow> error option" where
  "validateFieldTypes data schema =
    (case map_of schema ''properties'' of
       Some (GoMap properties) \<Rightarrow> validateFieldTypes_loop data properties
     | _ \<Rightarrow> None)"

fun validateRequiredFields_loop :: "string list \<Rightarrow> (string \<times> goval) list \<Rightarrow> error option" where
  "validateRequiredFields_loop [] data = None"
| "validateRequiredFields_loop (field # rest) data =
    (if map_of data field = None
     then Some (ErrorString (''missing required field: '' @ field))
     else validateRequiredFields_loop rest data)"

definition validateRequiredFields :: "(string \<times> goval) list \<Rightarrow> JSONSchema \<Rightarrow> error option" where
  "validateRequiredFields data schema =
    (case map_of schema ''required'' of
       Some (GoStringSlice required) \<Rightarrow> validateRequiredFields_loop required data
     | _ \<Rightarrow> None)"

definition validateJSONData :: "(string \<times> goval) list \<Rightarrow> JSONSchema \<Rightarrow> error + (string \<times> goval) list" where
  "validateJSONData data schema =
    (case validateRequiredFields data schema of
       Some err \<Rightarrow> Inl err
     | None \<Rightarrow>
        (case validateFieldTypes data schema of
           Some err \<Rightarrow> Inl err
         | None \<Rightarrow> Inr data))"

text \<open>
  \<^verbatim>\<open>json.Unmarshal\<close> into a \<^verbatim>\<open>map[string]any\<close> belongs to Go's standard library; it is the
  parameter \<open>unmarshal\<close>. The first result of \<^verbatim>\<open>ValidateJSON\<close> is \<^verbatim>\<open>nil\<close> for an empty schema
  (here the empty map).
\<close>

type_synonym json_decoder = "string \<Rightarrow> error + (string \<times> goval) list"

definition ValidateJSON :: "json_decoder \<Rightarrow> string \<Rightarrow> JSONSchema \<Rightarrow> error + (string \<times> goval) list" where
  "ValidateJSON unmarshal jsonData schema =
    (if length schema = 0 then Inr []
     else
       (case unmarshal jsonData of
          Inl err \<Rightarrow> Inl (Wrap ''failed to parse JSON: '' err [])
        | Inr data \<Rightarrow> validateJSONData data schema))"

section \<open>Collaborators: tools, guardrails, handoffs, hooks\<close>

text \<open>
  The completion service, the tools, the guardrails, the handoff callbacks and the hooks
  are code of the caller. Each is a function on an abstract outside world \<open>'w\<close>, which it
  may read and change; a Go result pair \<^verbatim>\<open>(value, error)\<close> is a sum. The engine's calls
  to the completion service, to a tool's \<^verbatim>\<open>Invoke\<close> and to a guardrail's \<^verbatim>\<open>Check\<close> are
  recorded, in order, in a list of events beside the world. Tracing spans and
  \<^verbatim>\<open>time.Sleep\<close> are left out.
\<close>

record ToolDef =
  td_name :: string
  td_description :: string
  td_parameters :: JSONSchema

record Settings =
  set_Tools :: "ToolDef list"
  set_model :: string

record InputGuardrailResult =
  ig_Allowed :: bool
  ig_Message :: string

record OutputGuardrailResult =
  og_Allowed :: bool
  og_Message :: string
  ModifiedOutput :: string

datatype event =
    EvModelCall "Message list" "error + Response"
  | EvToolInvoke string string "error + string"
  | EvInputGuardrail nat string "error + InputGuardrailResult"
  | EvOutputGuardrail nat string "error + OutputGuardrailResult"

type_synonym 'w world = "'w \<times> event list"

record 'w Tool =
  tool_Name :: string
  tool_Description :: string
  ParamsJSONSchema :: JSONSchema
  Invoke :: "string \<Rightarrow> 'w \<Rightarrow> (error + string) \<times> 'w"

record 'w InputGuardrail =
  ig_Name :: string
  ig_Check :: "string \<Rightarrow> 'w \<Rightarrow> (error + InputGuardrailResult) \<times> 'w"

record 'w OutputGuardrail =
  og_Name :: string
  og_Check :: "string \<Rightarrow> 'w \<Rightarrow> (error + OutputGuardrailResult) \<times> 'w"

text \<open>
  \<^verbatim>\<open>handoff.InputData\<close> as the runner builds it: three empty lists and the metadata
  entries \<^verbatim>\<open>handoff_input\<close>, \<^verbatim>\<open>source_agent\<close>, \<^verbatim>\<open>target_agent\<close>.
\<close>

record InputData =
  handoff_input :: string
  source_agent :: string
  target_agent :: string

text \<open>
  \<^verbatim>\<open>TargetAgent()\<close> returns an \<^verbatim>\<open>any\<close>: a pointer to an agent (an address of the agent
  store), a nil \<^verbatim>\<open>*agent.Agent\<close>, or a value of another type.
\<close>

datatype target = AgentPtr nat | NilAgentPtr | NotAnAgent

record 'w Handoff =
  TargetAgent :: target
  ToolName :: string
  ToolDescription :: string
  InputJSONSchema :: JSONSchema
  ShouldHandoff :: "string \<Rightarrow> 'w \<Rightarrow> (error + bool) \<times> 'w"
  OnHandoff :: "InputData \<Rightarrow> string \<Rightarrow> 'w \<Rightarrow> error option \<times> 'w"

record ('w, 'v) Hooks =
  OnStart :: "nat \<Rightarrow> 'w \<Rightarrow> error option \<times> 'w"
  OnEnd :: "nat \<Rightarrow> string + 'v \<Rightarrow> 'w \<Rightarrow> error option \<times> 'w"
  hook_OnHandoff :: "nat \<Rightarrow> nat \<Rightarrow> 'w \<Rightarrow> error option \<times> 'w"
  OnToolStart :: "nat \<Rightarrow> 'w Tool \<Rightarrow> 'w \<Rightarrow> error option \<times> 'w"
  OnToolEnd :: "nat \<Rightarrow> 'w Tool \<Rightarrow> string \<Rightarrow> 'w \<Rightarrow> error option \<times> 'w"

definition BaseAgentHooks :: "('w, 'v) Hooks" where
  "BaseAgentHooks =
    \<lparr>OnStart = (\<lambda>a w. (None, w)),
     OnEnd = (\<lambda>a out w. (None, w)),
     hook_OnHandoff = (\<lambda>n c w. (None, w)),
     OnToolStart = (\<lambda>a t w. (None, w)),
     OnToolEnd = (\<lambda>a t out w. (None, w))\<rparr>"

section \<open>Agents (package agent)\<close>

text \<open>
  \<open>OutputType\<close> is the \<^verbatim>\<open>reflect.Type\<close> together with what \<^verbatim>\<open>json.Unmarshal\<close> does into a
  new value of it: a decoder from the content to a value of \<open>'v\<close>, or its error.
  \<open>Hooks\<close> is an interface value and may be nil. Agents are addressed by pointers
  (\<open>nat\<close>) into a store, since handoffs may point back at the agent that holds them; the
  store does not change during a run.
\<close>

record ('w, 'v) Agent =
  Name :: string
  Instructions :: string
  HandoffDescription :: string
  Handoffs :: "'w Handoff list"
  Model :: string
  Tools :: "'w Tool list"
  InputGuardrails :: "'w InputGuardrail list"
  OutputGuardrails :: "'w OutputGuardrail list"
  OutputType :: "(string \<Rightarrow> error + 'v) option"
  Hooks :: "('w, 'v) Hooks option"
  dynamicInstructions :: "('w \<Rightarrow> string \<times> 'w) option"
  asyncDynamicInstructions :: "('w \<Rightarrow> (error + string) \<times> 'w) option"

definition New :: "string \<Rightarrow> string \<Rightarrow> ('w, 'v) Agent" where
  "New name instructions =
    \<lparr>Name = name, Instructions = instructions, HandoffDescription = [],
     Handoffs = [], Model = [], Tools = [], InputGuardrails = [], OutputGuardrails = [],
     OutputType = None, Hooks = Some BaseAgentHooks,
     dynamicInstructions = None, asyncDynamicInstructions = None\<rparr>"

definition GetSystemPrompt :: "('w, 'v) Agent \<Rightarrow> 'w \<Rightarrow> (error + string) \<times> 'w" where
  "GetSystemPrompt a w =
    (case asyncDynamicInstructions a of
       Some f \<Rightarrow> f w
     | None \<Rightarrow>
        (case dynamicInstructions a of
           Some g \<Rightarrow> (case g w of (s, w') \<Rightarrow> (Inr s, w'))
         | None \<Rightarrow> (Inr (Instructions a), w)))"

section \<open>The runner: configuration, state, results\<close>

definition DefaultMaxTurns :: int where
  "DefaultMaxTurns = 10"

record 'w RunConfig =
  cfg_Model :: string
  ModelProvider :: "(Message list \<Rightarrow> Settings \<Rightarrow> 'w \<Rightarrow> (error + Response) \<times> 'w) option"
  MaxTurns :: int
  HandoffCallback :: "(nat \<Rightarrow> nat \<Rightarrow> string \<Rightarrow> 'w \<Rightarrow> error option \<times> 'w) option"
  HandoffInputFilter :: "(InputData \<Rightarrow> 'w \<Rightarrow> error option \<times> 'w) option"

record ('w, 'v) env =
  heap :: "nat \<Rightarrow> ('w, 'v) Agent"
  json_Unmarshal :: json_decoder

record ('w, 'v) executionState =
  agent :: nat
  currentAgent :: nat
  originalInput :: string
  config :: "'w RunConfig"
  messages :: "Message list"
  resultMessages :: "Message list"
  usage :: Usage
  stepCounter :: int
  finalOutput :: string
  structuredOutput :: "'v option"

record 'v stepResult =
  sr_finalOutput :: string
  sr_structuredOutput :: "'v option"
  nextAgent :: "nat option"
  sr_messages :: "Message list"
  sr_usage :: Usage
  handoffInput :: string

record 'v Result =
  FinalOutput :: string
  StructuredOutput :: "'v option"
  LastAgent :: nat
  History :: "Message list"
  res_Usage :: Usage

definition zero_Usage :: Usage where
  "zero_Usage = \<lparr>PromptTokens = 0, CompletionTokens = 0, TotalTokens = 0\<rparr>"

definition mk_Message :: "string \<Rightarrow> string \<Rightarrow> Message" where
  "mk_Message role content =
    \<lparr>Role = role, Content = content, ToolCalls = [], ToolCallID = [], msg_Name = []\<rparr>"

definition convertUsage :: "Usage \<Rightarrow> Usage" where
  "convertUsage u =
    \<lparr>PromptTokens = PromptTokens u, CompletionTokens = CompletionTokens u,
     TotalTokens = TotalTokens u\<rparr>"

definition accumulateUsage :: "Usage \<Rightarrow> Usage \<Rightarrow> Usage" where
  "accumulateUsage totalUsage stepUsage =
    \<lparr>PromptTokens = PromptTokens totalUsage + PromptTokens stepUsage,
     CompletionTokens = CompletionTokens totalUsage + CompletionTokens stepUsage,
     TotalTokens = TotalTokens totalUsage + TotalTokens stepUsage\<rparr>"

definition convertModelMessages :: "Message list \<Rightarrow> Message list" where
  "convertModelMessages ms =
    map (\<lambda>msg. \<lparr>Role = Role msg, Content = Content msg, ToolCalls = ToolCalls msg,
                 ToolCallID = ToolCallID msg, msg_Name = msg_Name msg\<rparr>) ms"

definition prepareMessages :: "('w, 'v) Agent \<Rightarrow> string \<Rightarrow> Message list" where
  "prepareMessages a input =
    (if Instructions a \<noteq> [] then [mk_Message ''system'' (Instructions a)] else []) @
    (if input \<noteq> [] then [mk_Message ''user'' input] else [])"

definition validateInputsAndSetup ::
  "('w, 'v) Agent \<Rightarrow> 'w RunConfig \<Rightarrow> error + 'w RunConfig" where
  "validateInputsAndSetup a cfg =
    (if Instructions a = [] then Inl ErrAgentMissingInstructions
     else if ModelProvider cfg = None then Inl ErrModelProviderRequired
     else if MaxTurns cfg \<le> 0 then Inr (cfg\<lparr>MaxTurns := DefaultMaxTurns\<rparr>)
     else Inr cfg)"

section \<open>Guardrails\<close>

fun applyInputGuardrails_loop ::
  "nat \<Rightarrow> 'w InputGuardrail list \<Rightarrow> string \<Rightarrow> 'w world \<Rightarrow> error option \<times> 'w world" where
  "applyInputGuardrails_loop i [] input wl = (None, wl)"
| "applyInputGuardrails_loop i (g # gs) input (w, log) =
    (case ig_Check g input w of
       (r, w1) \<Rightarrow>
         (case r of
            Inl err \<Rightarrow>
              (Some (Wrap ''input guardrail error: '' err []),
               (w1, log @ [EvInputGuardrail i input r]))
          | Inr result \<Rightarrow>
              if \<not> ig_Allowed result
              then (Some (Wrap [] ErrGuardrailTripwire ('': '' @ ig_Message result)),
                    (w1, log @ [EvInputGuardrail i input r]))
              else applyInputGuardrails_loop (Suc i) gs input
                     (w1, log @ [EvInputGuardrail i input r])))"

definition applyInputGuardrails ::
  "('w, 'v) env \<Rightarrow> ('w, 'v) executionState \<Rightarrow> 'w world \<Rightarrow> error option \<times> 'w world" where
  "applyInputGuardrails e state wl =
    (if length (InputGuardrails (heap e (agent state))) = 0 then (None, wl)
     else applyInputGuardrails_loop 0 (InputGuardrails (heap e (agent state)))
            (originalInput state) wl)"

fun applyOutputGuardrails_loop ::
  "nat \<Rightarrow> 'w OutputGuardrail list \<Rightarrow> string \<Rightarrow> 'w world \<Rightarrow> (error + string) \<times> 'w world" where
  "applyOutputGuardrails_loop i [] modifiedOutput wl = (Inr modifiedOutput, wl)"
| "applyOutputGuardrails_loop i (g # gs) modifiedOutput (w, log) =
    (case og_Check g modifiedOutput w of
       (r, w1) \<Rightarrow>
         (case r of
            Inl err \<Rightarrow>
              (Inl (Wrap ''output guardrail error: '' err []),
               (w1, log @ [EvOutputGuardrail i modifiedOutput r]))
          | Inr result \<Rightarrow>
              if \<not> og_Allowed result
              then (Inl (Wrap [] ErrGuardrailTripwire ('': '' @ og_Message result)),
                    (w1, log @ [EvOutputGuardrail i modifiedOutput r]))
              else applyOutputGuardrails_loop (Suc i) gs
                     (if ModifiedOutput result \<noteq> [] then ModifiedOutput result
                      else modifiedOutput)
                     (w1, log @ [EvOutputGuardrail i modifiedOutput r])))"

definition applyOutputGuardrails ::
  "('w, 'v) Agent \<Rightarrow> string \<Rightarrow> 'w world \<Rightarrow> (error + string) \<times> 'w world" where
  "applyOutputGuardrails a output wl =
    applyOutputGuardrails_loop 0 (OutputGuardrails a) output wl"

section \<open>Tool dispatch and the handoff scan\<close>

definition nil_deref :: error where
  "nil_deref = Panic ''runtime error: invalid memory address or nil pointer dereference''"

fun executeToolWithTracing ::
  "nat \<Rightarrow> ('w, 'v) Agent \<Rightarrow> 'w Tool \<Rightarrow> string \<Rightarrow> 'w world \<Rightarrow> (error + string) \<times> 'w world" where
  "executeToolWithTracing p a t args (w, log) =
    (case Hooks a of
       None \<Rightarrow> (Inl nil_deref, (w, log))
     | Some hk \<Rightarrow>
        (case OnToolStart hk p t w of
           (Some err, w1) \<Rightarrow> (Inl (Wrap ''error in OnToolStart hook: '' err []), (w1, log))
         | (None, w1) \<Rightarrow>
            (case Invoke t args w1 of
               (r, w2) \<Rightarrow>
                 (case r of
                    Inl err \<Rightarrow>
                      (Inl (Wrap ''tool execution error: '' err []),
                       (w2, log @ [EvToolInvoke (tool_Name t) args r]))
                  | Inr result \<Rightarrow>
                     (case OnToolEnd hk p t result w2 of
                        (Some err, w3) \<Rightarrow>
                          (Inl (Wrap ''error in OnToolEnd hook: '' err []),
                           (w3, log @ [EvToolInvoke (tool_Name t) args r]))
                      | (None, w3) \<Rightarrow>
                          (Inr result, (w3, log @ [EvToolInvoke (tool_Name t) args r])))))))"

definition tool_message :: "ToolCall \<Rightarrow> string \<Rightarrow> Message" where
  "tool_message tc toolResponse =
    \<lparr>Role = ''tool'', Content = toolResponse, ToolCalls = [], ToolCallID = ID tc,
     msg_Name = []\<rparr>"

definition tool_not_found :: "string \<Rightarrow> string" where
  "tool_not_found name = ''Error: Tool '' @ [CHR 0x27] @ name @ [CHR 0x27] @ '' not found''"

text \<open>The second loop of \<^verbatim>\<open>processToolCallsAndHandoffs\<close>: the tool responses, in order.\<close>

fun executeTools ::
  "nat \<Rightarrow> ('w, 'v) Agent \<Rightarrow> ToolCall list \<Rightarrow> 'w world \<Rightarrow> (error + Message list) \<times> 'w world" where
  "executeTools p a [] wl = (Inr [], wl)"
| "executeTools p a (tc # rest) wl =
    (case find (\<lambda>t. tool_Name t = fn_Name (Function tc)) (Tools a) of
       Some foundTool \<Rightarrow>
         (case executeToolWithTracing p a foundTool (fn_Arguments (Function tc)) wl of
            (Inl err, wl1) \<Rightarrow> (Inl (Wrap ''tool execution error: '' err []), wl1)
          | (Inr toolResponse, wl1) \<Rightarrow>
             (case executeTools p a rest wl1 of
                (Inl err, wl2) \<Rightarrow> (Inl err, wl2)
              | (Inr toolResponses, wl2) \<Rightarrow>
                  (Inr (tool_message tc toolResponse # toolResponses), wl2)))
     | None \<Rightarrow>
         (case executeTools p a rest wl of
            (Inl err, wl2) \<Rightarrow> (Inl err, wl2)
          | (Inr toolResponses, wl2) \<Rightarrow>
              (Inr (tool_message tc (tool_not_found (fn_Name (Function tc))) # toolResponses),
               wl2)))"

definition handoff_stepResult :: "nat option \<Rightarrow> Message \<Rightarrow> string \<Rightarrow> 'v stepResult" where
  "handoff_stepResult targetAgent message args =
    \<lparr>sr_finalOutput = [], sr_structuredOutput = None, nextAgent = targetAgent,
     sr_messages = [message], sr_usage = zero_Usage, handoffInput = args\<rparr>"

text \<open>
  The first loop of \<^verbatim>\<open>processToolCallsAndHandoffs\<close>, inner part: the handoffs of the agent
  against one tool call. \<open>Inr None\<close>: no handoff was taken for this call.
\<close>

fun scanHandoffs ::
  "json_decoder \<Rightarrow> Message \<Rightarrow> ToolCall \<Rightarrow> 'w Handoff list \<Rightarrow> 'w world \<Rightarrow>
     (error + 'v stepResult option) \<times> 'w world" where
  "scanHandoffs unm message tc [] wl = (Inr None, wl)"
| "scanHandoffs unm message tc (h # hs) (w, log) =
    (if ToolName h = fn_Name (Function tc) then
       (case ShouldHandoff h (fn_Arguments (Function tc)) w of
          (Inl err, w1) \<Rightarrow> (Inl (Wrap ''failed to check handoff: '' err []), (w1, log))
        | (Inr shouldHandoff, w1) \<Rightarrow>
            if shouldHandoff then
              (case (if length (InputJSONSchema h) > 0
                     then ValidateJSON unm (fn_Arguments (Function tc)) (InputJSONSchema h)
                     else Inr []) of
                 Inl err \<Rightarrow>
                   (Inl (Wrap [] ErrInvalidHandoffInput ('': '' @ Error err)), (w1, log))
               | Inr _ \<Rightarrow>
                  (case TargetAgent h of
                     NotAnAgent \<Rightarrow>
                       (Inl (Panic ''interface conversion: interface {} is not *agent.Agent''),
                        (w1, log))
                   | NilAgentPtr \<Rightarrow>
                       (Inr (Some (handoff_stepResult None message (fn_Arguments (Function tc)))),
                        (w1, log))
                   | AgentPtr q \<Rightarrow>
                       (Inr (Some (handoff_stepResult (Some q) message
                                     (fn_Arguments (Function tc)))),
                        (w1, log))))
            else scanHandoffs unm message tc hs (w1, log))
     else scanHandoffs unm message tc hs (w, log))"

text \<open>Outer part: the tool calls of the message, in order.\<close>

fun scanToolCalls ::
  "json_decoder \<Rightarrow> Message \<Rightarrow> 'w Handoff list \<Rightarrow> ToolCall list \<Rightarrow> 'w world \<Rightarrow>
     (error + 'v stepResult option) \<times> 'w world" where
  "scanToolCalls unm message hs [] wl = (Inr None, wl)"
| "scanToolCalls unm message hs (tc # rest) wl =
    (case scanHandoffs unm message tc hs wl of
       (Inl err, wl1) \<Rightarrow> (Inl err, wl1)
     | (Inr (Some sr), wl1) \<Rightarrow> (Inr (Some sr), wl1)
     | (Inr None, wl1) \<Rightarrow> scanToolCalls unm message hs rest wl1)"

definition processToolCallsAndHandoffs ::
  "('w, 'v) env \<Rightarrow> nat \<Rightarrow> Message \<Rightarrow> 'w world \<Rightarrow> (error + 'v stepResult) \<times> 'w world" where
  "processToolCallsAndHandoffs e p message wl =
    (if length (ToolCalls message) = 0
     then (Inl (ErrorString ''no tool calls found in message''), wl)
     else
       (case scanToolCalls (json_Unmarshal e) message (Handoffs (heap e p)) (ToolCalls message) wl of
          (Inl err, wl1) \<Rightarrow> (Inl err, wl1)
        | (Inr (Some sr), wl1) \<Rightarrow> (Inr sr, wl1)
        | (Inr None, wl1) \<Rightarrow>
           (case executeTools p (heap e p) (ToolCalls message) wl1 of
              (Inl err, wl2) \<Rightarrow> (Inl err, wl2)
            | (Inr toolResponses, wl2) \<Rightarrow>
                (Inr \<lparr>sr_finalOutput = [], sr_structuredOutput = None, nextAgent = None,
                      sr_messages = message # toolResponses, sr_usage = zero_Usage,
                      handoffInput = []\<rparr>, wl2))))"

section \<open>One turn\<close>

definition buildToolDefinitions :: "('w, 'v) Agent \<Rightarrow> ToolDef list" where
  "buildToolDefinitions a =
    map (\<lambda>t. \<lparr>td_name = tool_Name t, td_description = tool_Description t,
              td_parameters = ParamsJSONSchema t\<rparr>) (Tools a) @
    map (\<lambda>h. \<lparr>td_name = ToolName h, td_description = ToolDescription h,
              td_parameters = InputJSONSchema h\<rparr>) (Handoffs a)"

text \<open>
  Two blocks of \<^verbatim>\<open>processAgentStep\<close>, named here: the parse of the final content into the
  declared output type (none declared: no structured value), and the output guardrails,
  which run only when the agent has some.
\<close>

definition parse_structured_output :: "('w, 'v) Agent \<Rightarrow> string \<Rightarrow> error + 'v option" where
  "parse_structured_output a content =
    (case OutputType a of
       None \<Rightarrow> Inr None
     | Some unmarshal \<Rightarrow>
        (case unmarshal content of
           Inl err \<Rightarrow> Inl (Wrap [] ErrInvalidOutputFormat ('': '' @ Error err))
         | Inr v \<Rightarrow> Inr (Some v)))"

definition check_output ::
  "('w, 'v) Agent \<Rightarrow> string \<Rightarrow> 'w world \<Rightarrow> (error + string) \<times> 'w world" where
  "check_output a content wl =
    (if length (OutputGuardrails a) > 0 then applyOutputGuardrails a content wl
     else (Inr content, wl))"

text \<open>
  \<^verbatim>\<open>processAgentStep\<close> adds the response's usage to the state before it looks at the
  response; the state comes back with the step result. After an error the caller drops the
  state, so none is returned.
\<close>

fun processAgentStep ::
  "('w, 'v) env \<Rightarrow> ('w, 'v) executionState \<Rightarrow> 'w world \<Rightarrow>
     (error + 'v stepResult \<times> ('w, 'v) executionState) \<times> 'w world" where
  "processAgentStep e state (w, log) =
    (let a = heap e (currentAgent state);
         modelName = (if Model a \<noteq> [] then Model a else cfg_Model (config state));
         settings = \<lparr>set_Tools = buildToolDefinitions a, set_model = modelName\<rparr>
     in
       case ModelProvider (config state) of
         None \<Rightarrow> (Inl nil_deref, (w, log))
       | Some provider \<Rightarrow>
          (case provider (messages state) settings w of
             (r, w1) \<Rightarrow>
               (case r of
                  Inl err \<Rightarrow>
                    (Inl (Wrap ''LLM call failed: '' err []),
                     (w1, log @ [EvModelCall (messages state) r]))
                | Inr response \<Rightarrow>
                   (let state1 = state\<lparr>usage := accumulateUsage (usage state)
                                                  (convertUsage (resp_Usage response))\<rparr>;
                        wl1 = (w1, log @ [EvModelCall (messages state) r])
                    in
                      if length (ToolCalls (resp_Message response)) > 0 then
                        (case processToolCallsAndHandoffs e (currentAgent state)
                                (resp_Message response) wl1 of
                           (Inl err, wl2) \<Rightarrow> (Inl err, wl2)
                         | (Inr sr, wl2) \<Rightarrow> (Inr (sr, state1), wl2))
                      else
                        (case parse_structured_output a (Content (resp_Message response)) of
                           Inl err \<Rightarrow> (Inl err, wl1)
                         | Inr structured \<Rightarrow>
                            (case check_output a (Content (resp_Message response)) wl1 of
                               (Inl err, wl2) \<Rightarrow> (Inl err, wl2)
                             | (Inr checkedOutput, wl2) \<Rightarrow>
                                 (Inr (\<lparr>sr_finalOutput = checkedOutput,
                                        sr_structuredOutput = structured,
                                        nextAgent = None,
                                        sr_messages = [resp_Message response],
                                        sr_usage = convertUsage (resp_Usage response),
                                        handoffInput = []\<rparr>, state1), wl2)))))))"

fun lift_io :: "('w \<Rightarrow> 'a \<times> 'w) \<Rightarrow> 'w world \<Rightarrow> 'a \<times> 'w world" where
  "lift_io f (w, log) = (case f w of (r, w1) \<Rightarrow> (r, (w1, log)))"

definition set_system_content :: "Message list \<Rightarrow> string \<Rightarrow> Message list" where
  "set_system_content ms instructions =
    (case ms of
       [] \<Rightarrow> []
     | m # rest \<Rightarrow> if Role m = ''system'' then m\<lparr>Content := instructions\<rparr> # rest else ms)"

definition runSingleTurn ::
  "('w, 'v) env \<Rightarrow> ('w, 'v) executionState \<Rightarrow> 'w world \<Rightarrow>
     (error + 'v stepResult \<times> ('w, 'v) executionState) \<times> 'w world" where
  "runSingleTurn e state wl =
    (case lift_io (GetSystemPrompt (heap e (currentAgent state))) wl of
       (Inl err, wl1) \<Rightarrow> (Inl (Wrap ''failed to get instructions: '' err []), wl1)
     | (Inr instructions, wl1) \<Rightarrow>
         processAgentStep e
           (state\<lparr>messages := set_system_content (messages state) instructions\<rparr>) wl1)"

section \<open>Handoff to the next agent\<close>

definition handoff_InputData ::
  "('w, 'v) env \<Rightarrow> ('w, 'v) executionState \<Rightarrow> nat \<Rightarrow> string \<Rightarrow> InputData" where
  "handoff_InputData e state next input =
    \<lparr>handoff_input = input, source_agent = Name (heap e (currentAgent state)),
     target_agent = Name (heap e next)\<rparr>"

definition processTargetHandoff ::
  "('w, 'v) env \<Rightarrow> 'w Handoff \<Rightarrow> ('w, 'v) executionState \<Rightarrow> nat \<Rightarrow> string \<Rightarrow> 'w world \<Rightarrow>
     error option \<times> 'w world" where
  "processTargetHandoff e targetHandoff state next input wl =
    (case lift_io (OnHandoff targetHandoff (handoff_InputData e state next input) input) wl of
       (Some err, wl1) \<Rightarrow> (Some (Wrap ''handoff callback failed: '' err []), wl1)
     | (None, wl1) \<Rightarrow> (None, wl1))"

definition processHandoffCallbacks ::
  "('w, 'v) env \<Rightarrow> ('w, 'v) executionState \<Rightarrow> nat \<Rightarrow> string \<Rightarrow> 'w world \<Rightarrow>
     error option \<times> 'w world" where
  "processHandoffCallbacks e state next input wl =
    (case (case find (\<lambda>h. TargetAgent h = AgentPtr next)
                  (Handoffs (heap e (currentAgent state))) of
             Some targetHandoff \<Rightarrow> processTargetHandoff e targetHandoff state next input wl
           | None \<Rightarrow> (None, wl)) of
       (Some err, wl1) \<Rightarrow> (Some err, wl1)
     | (None, wl1) \<Rightarrow>
        (case (case HandoffCallback (config state) of
                 Some cb \<Rightarrow>
                   (case lift_io (cb next (currentAgent state) input) wl1 of
                      (Some err, wl2) \<Rightarrow> (Some (Wrap ''handoff callback failed: '' err []), wl2)
                    | (None, wl2) \<Rightarrow> (None, wl2))
               | None \<Rightarrow> (None, wl1)) of
           (Some err, wl2) \<Rightarrow> (Some err, wl2)
         | (None, wl2) \<Rightarrow>
            (case Hooks (heap e next) of
               None \<Rightarrow> (Some nil_deref, wl2)
             | Some hk \<Rightarrow>
                (case lift_io (hook_OnHandoff hk next (currentAgent state)) wl2 of
                   (Some err, wl3) \<Rightarrow> (Some (Wrap ''error in OnHandoff hook: '' err []), wl3)
                 | (None, wl3) \<Rightarrow> (None, wl3)))))"

definition applyHandoffInputFilter ::
  "('w, 'v) env \<Rightarrow> ('w, 'v) executionState \<Rightarrow> nat \<Rightarrow> string \<Rightarrow> 'w world \<Rightarrow>
     error option \<times> 'w world" where
  "applyHandoffInputFilter e state next input wl =
    (case HandoffInputFilter (config state) of
       Some flt \<Rightarrow>
         (case lift_io (flt (handoff_InputData e state next input)) wl of
            (Some err, wl1) \<Rightarrow> (Some (Wrap ''handoff input filter failed: '' err []), wl1)
          | (None, wl1) \<Rightarrow> (None, wl1))
     | None \<Rightarrow> (None, wl))"

definition updateMessagesForNewAgent ::
  "('w, 'v) env \<Rightarrow> ('w, 'v) executionState \<Rightarrow> nat \<Rightarrow> 'w world \<Rightarrow>
     (error + ('w, 'v) executionState) \<times> 'w world" where
  "updateMessagesForNewAgent e state next wl =
    (case lift_io (GetSystemPrompt (heap e next)) wl of
       (Inl err, wl1) \<Rightarrow>
         (Inl (Wrap ''failed to get instructions for next agent: '' err []), wl1)
     | (Inr newInstructions, wl1) \<Rightarrow>
         (Inr (state\<lparr>currentAgent := next,
                     messages := mk_Message ''system'' newInstructions #
                                 filter (\<lambda>msg. Role msg \<noteq> ''system'') (messages state)\<rparr>),
          wl1))"

definition handleAgentHandoff ::
  "('w, 'v) env \<Rightarrow> ('w, 'v) executionState \<Rightarrow> nat \<Rightarrow> string \<Rightarrow> 'w world \<Rightarrow>
     (error + ('w, 'v) executionState) \<times> 'w world" where
  "handleAgentHandoff e state next input wl =
    (case processHandoffCallbacks e state next input wl of
       (Some err, wl1) \<Rightarrow> (Inl err, wl1)
     | (None, wl1) \<Rightarrow>
        (case applyHandoffInputFilter e state next input wl1 of
           (Some err, wl2) \<Rightarrow> (Inl err, wl2)
         | (None, wl2) \<Rightarrow>
            (case updateMessagesForNewAgent e state next wl2 of
               (Inl err, wl3) \<Rightarrow> (Inl err, wl3)
             | (Inr state1, wl3) \<Rightarrow>
                (case Hooks (heap e (currentAgent state1)) of
                   None \<Rightarrow> (Inl nil_deref, wl3)
                 | Some hk \<Rightarrow>
                    (case lift_io (OnStart hk (currentAgent state1)) wl3 of
                       (Some err, wl4) \<Rightarrow>
                         (Inl (Wrap ''error in OnStart hook for next agent: '' err []), wl4)
                     | (None, wl4) \<Rightarrow> (Inr state1, wl4))))))"

definition processStepResult ::
  "('w, 'v) env \<Rightarrow> ('w, 'v) executionState \<Rightarrow> 'v stepResult \<Rightarrow> 'w world \<Rightarrow>
     (error + ('w, 'v) executionState) \<times> 'w world" where
  "processStepResult e state sr wl =
    (let state1 = state\<lparr>messages := messages state @ sr_messages sr,
                        resultMessages := resultMessages state @ sr_messages sr\<rparr>
     in
       case nextAgent sr of
         Some next \<Rightarrow> handleAgentHandoff e state1 next (handoffInput sr) wl
       | None \<Rightarrow>
           if sr_finalOutput sr \<noteq> []
           then (Inr (state1\<lparr>finalOutput := sr_finalOutput sr,
                              structuredOutput := sr_structuredOutput sr\<rparr>), wl)
           else (Inr state1, wl))"

section \<open>The loop and the run\<close>

definition itoa_int :: "int \<Rightarrow> string" where
  "itoa_int i = (if i < 0 then ''-'' @ itoa (nat (- i)) else itoa (nat i))"

definition runAgentExecutionLoop_end ::
  "('w, 'v) env \<Rightarrow> ('w, 'v) executionState \<Rightarrow> 'w world \<Rightarrow> (error + 'v Result) \<times> 'w world" where
  "runAgentExecutionLoop_end e state wl =
    (if finalOutput state = [] then (Inl ErrMaxTurnsExceeded, wl)
     else
       (case Hooks (heap e (currentAgent state)) of
          None \<Rightarrow> (Inl nil_deref, wl)
        | Some hk \<Rightarrow>
           (case lift_io (OnEnd hk (currentAgent state)
                           (case structuredOutput state of
                              Some v \<Rightarrow> Inr v
                            | None \<Rightarrow> Inl (finalOutput state))) wl of
              (Some err, wl1) \<Rightarrow> (Inl (Wrap ''error in OnEnd hook: '' err []), wl1)
            | (None, wl1) \<Rightarrow>
                (Inr \<lparr>FinalOutput = finalOutput state,
                      StructuredOutput = structuredOutput state,
                      LastAgent = currentAgent state,
                      History = convertModelMessages (resultMessages state),
                      res_Usage = usage state\<rparr>, wl1))))"

lemma processAgentStep_frame:
  "processAgentStep e s wl = (Inr (sr, s1), wl1) \<Longrightarrow>
     config s1 = config s \<and> stepCounter s1 = stepCounter s \<and> finalOutput s1 = finalOutput s"
  by (cases wl) (auto simp: Let_def split: option.splits prod.splits sum.splits if_splits)

lemma runSingleTurn_frame:
  "runSingleTurn e s wl = (Inr (sr, s1), wl1) \<Longrightarrow>
     config s1 = config s \<and> stepCounter s1 = stepCounter s \<and> finalOutput s1 = finalOutput s"
  by (auto simp: runSingleTurn_def split: prod.splits sum.splits dest!: processAgentStep_frame)

lemma handleAgentHandoff_frame:
  "handleAgentHandoff e s n i wl = (Inr s1, wl1) \<Longrightarrow>
     config s1 = config s \<and> stepCounter s1 = stepCounter s"
  by (auto simp: handleAgentHandoff_def updateMessagesForNewAgent_def
      split: prod.splits sum.splits option.splits)

lemma processStepResult_frame:
  "processStepResult e s sr wl = (Inr s1, wl1) \<Longrightarrow>
     config s1 = config s \<and> stepCounter s1 = stepCounter s"
  by (auto simp: processStepResult_def Let_def split: option.splits if_splits
      dest!: handleAgentHandoff_frame)

function runAgentExecutionLoop ::
  "('w, 'v) env \<Rightarrow> ('w, 'v) executionState \<Rightarrow> 'w world \<Rightarrow> (error + 'v Result) \<times> 'w world" where
  "runAgentExecutionLoop e state wl =
    (if stepCounter state < MaxTurns (config state) then
       (case runSingleTurn e state wl of
          (Inl err, wl1) \<Rightarrow>
            (Inl (Wrap (''step '' @ itoa_int (stepCounter state + 1) @ '' error: '') err []), wl1)
        | (Inr (sr, state1), wl1) \<Rightarrow>
           (case processStepResult e state1 sr wl1 of
              (Inl err, wl2) \<Rightarrow> (Inl err, wl2)
            | (Inr state2, wl2) \<Rightarrow>
                if finalOutput state2 \<noteq> [] then runAgentExecutionLoop_end e state2 wl2
                else runAgentExecutionLoop e
                       (state2\<lparr>stepCounter := stepCounter state2 + 1\<rparr>) wl2))
     else runAgentExecutionLoop_end e state wl)"
  by pat_completeness auto
termination
proof (relation "measure (\<lambda>(e, s, wl). nat (MaxTurns (config s) - stepCounter s))", goal_cases)
  case 1
  show ?case by simp
next
  case (2 e state wl x1 x2 b x1a x2a x1b x2b ba)
  have t: "runSingleTurn e state wl = (Inr (x1a, x2a), x2)"
    using 2 by simp
  have p: "processStepResult e x2a x1a x2 = (Inr ba, x2b)"
    using 2 by simp
  have "config ba = config state" "stepCounter ba = stepCounter state"
    using runSingleTurn_frame [OF t] processStepResult_frame [OF p] by simp_all
  then show ?case
    using 2(1) by simp
qed

declare runAgentExecutionLoop.simps [simp del]

definition RunWithConfig ::
  "('w, 'v) env \<Rightarrow> nat \<Rightarrow> string \<Rightarrow> 'w RunConfig \<Rightarrow> 'w world \<Rightarrow>
     (error + 'v Result) \<times> 'w world" where
  "RunWithConfig e a input cfg wl =
    (case validateInputsAndSetup (heap e a) cfg of
       Inl err \<Rightarrow> (Inl (Wrap ''validation error: '' err []), wl)
     | Inr cfg1 \<Rightarrow>
        (let execState =
               \<lparr>agent = a, currentAgent = a, originalInput = input, config = cfg1,
                messages = prepareMessages (heap e a) input, resultMessages = [],
                usage = zero_Usage, stepCounter = 0, finalOutput = [],
                structuredOutput = None\<rparr>
         in
           case applyInputGuardrails e execState wl of
             (Some err, wl1) \<Rightarrow> (Inl err, wl1)
           | (None, wl1) \<Rightarrow>
              (case Hooks (heap e a) of
                 None \<Rightarrow> (Inl nil_deref, wl1)
               | Some hk \<Rightarrow>
                  (case lift_io (OnStart hk a) wl1 of
                     (Some err, wl2) \<Rightarrow> (Inl (Wrap ''error in OnStart hook: '' err []), wl2)
                   | (None, wl2) \<Rightarrow>
                      (case runAgentExecutionLoop e
                              (if input \<noteq> []
                               then execState\<lparr>resultMessages := [mk_Message ''user'' input]\<rparr>
                               else execState) wl2 of
                         (Inl err, wl3) \<Rightarrow>
                           if errors_Is err ErrMaxTurnsExceeded
                           then (Inl ErrMaxTurnsExceeded, wl3)
                           else (Inl (Wrap ''agent execution error: '' err []), wl3)
                       | (Inr result, wl3) \<Rightarrow> (Inr result, wl3))))))"

section \<open>Traces\<close>

text \<open>
  Predicates on the recorded events: which call an event records, whether a completion
  response asks for tool invocations, and the error with which the engine answers a
  failed call or a disallowed check. \<open>fatal_last\<close>: an event that carries such an error is
  the last one recorded, and the result is an error that unwraps to it.
\<close>

fun is_model_call :: "event \<Rightarrow> bool" where
  "is_model_call (EvModelCall msgs r) = True"
| "is_model_call ev = False"

fun is_input_guardrail :: "event \<Rightarrow> bool" where
  "is_input_guardrail (EvInputGuardrail i input r) = True"
| "is_input_guardrail ev = False"

fun is_tool_invoke :: "event \<Rightarrow> bool" where
  "is_tool_invoke (EvToolInvoke name args r) = True"
| "is_tool_invoke ev = False"

fun is_output_guardrail :: "event \<Rightarrow> bool" where
  "is_output_guardrail (EvOutputGuardrail i out r) = True"
| "is_output_guardrail ev = False"

definition model_calls :: "event list \<Rightarrow> nat" where
  "model_calls evs = length (filter is_model_call evs)"

fun requests_tools :: "event \<Rightarrow> bool" where
  "requests_tools (EvModelCall msgs (Inr response)) = (ToolCalls (resp_Message response) \<noteq> [])"
| "requests_tools (EvModelCall msgs (Inl err)) = False"
| "requests_tools ev = True"

fun event_failure :: "event \<Rightarrow> error option" where
  "event_failure (EvModelCall msgs (Inl err)) = Some (Wrap ''LLM call failed: '' err [])"
| "event_failure (EvModelCall msgs (Inr response)) = None"
| "event_failure (EvToolInvoke name args (Inl err)) = Some (Wrap ''tool execution error: '' err [])"
| "event_failure (EvToolInvoke name args (Inr result)) = None"
| "event_failure (EvInputGuardrail i input (Inl err)) = Some (Wrap ''input guardrail error: '' err [])"
| "event_failure (EvInputGuardrail i input (Inr result)) =
     (if ig_Allowed result then None
      else Some (Wrap [] ErrGuardrailTripwire ('': '' @ ig_Message result)))"
| "event_failure (EvOutputGuardrail i out (Inl err)) = Some (Wrap ''output guardrail error: '' err [])"
| "event_failure (EvOutputGuardrail i out (Inr result)) =
     (if og_Allowed result then None
      else Some (Wrap [] ErrGuardrailTripwire ('': '' @ og_Message result)))"

fun err_of :: "error + 'a \<Rightarrow> error option" where
  "err_of (Inl e) = Some e"
| "err_of (Inr x) = None"

definition fatal_last :: "event list \<Rightarrow> error option \<Rightarrow> bool" where
  "fatal_last evs r =
    (\<forall>i<length evs. \<forall>x. event_failure (evs ! i) = Some x \<longrightarrow>
       Suc i = length evs \<and> (\<exists>e. r = Some e \<and> errors_Is e x))"

definition turn_shape :: "event list \<Rightarrow> bool" where
  "turn_shape evs = (evs = [] \<or> (is_model_call (hd evs) \<and> model_calls (tl evs) = 0 \<and>
      (\<forall>ev\<in>set evs. \<not> is_input_guardrail ev)))"

definition turn_settings :: "('w, 'v) env \<Rightarrow> ('w, 'v) executionState \<Rightarrow> Settings" where
  "turn_settings e s =
    \<lparr>set_Tools = buildToolDefinitions (heap e (currentAgent s)),
     set_model = (if Model (heap e (currentAgent s)) \<noteq> [] then Model (heap e (currentAgent s))
                  else cfg_Model (config s))\<rparr>"

definition usage_added :: "('w, 'v) executionState \<Rightarrow> Response \<Rightarrow> ('w, 'v) executionState" where
  "usage_added s response =
     s\<lparr>usage := accumulateUsage (usage s) (convertUsage (resp_Usage response))\<rparr>"

definition final_stepResult :: "string \<Rightarrow> 'v option \<Rightarrow> Response \<Rightarrow> 'v stepResult" where
  "final_stepResult checkedOutput structured response =
     \<lparr>sr_finalOutput = checkedOutput, sr_structuredOutput = structured, nextAgent = None,
      sr_messages = [resp_Message response], sr_usage = convertUsage (resp_Usage response),
      handoffInput = []\<rparr>"

definition budget_outcome ::
  "('w, 'v) executionState \<Rightarrow> event list \<Rightarrow> error + 'v Result \<Rightarrow> bool" where
  "budget_outcome s evs res =
    ((res = Inl ErrMaxTurnsExceeded \<and>
        int (model_calls evs) = MaxTurns (config s) - stepCounter s) \<or>
     (\<exists>err. res = Inl err \<and> err \<noteq> ErrMaxTurnsExceeded \<and>
        int (model_calls evs) \<le> MaxTurns (config s) - stepCounter s))"

section \<open>Test doubles (the fake model and tools of the runner's tests)\<close>

definition fake_usage :: Usage where
  "fake_usage = \<lparr>PromptTokens = 100, CompletionTokens = 50, TotalTokens = 150\<rparr>"

definition GetTextMessage :: "string \<Rightarrow> Message" where
  "GetTextMessage content = mk_Message ''assistant'' content"

definition GetFunctionToolCall :: "string \<Rightarrow> string \<Rightarrow> Message" where
  "GetFunctionToolCall name arguments =
    \<lparr>Role = ''assistant'', Content = [],
     ToolCalls = [\<lparr>ID = ''call_'' @ name, Type = ''function'',
                   Function = \<lparr>fn_Name = name, fn_Arguments = arguments\<rparr>\<rparr>],
     ToolCallID = [], msg_Name = []\<rparr>"

text \<open>The world of the test doubles is the fake model's turn counter.\<close>

definition FakeModel ::
  "Message list \<Rightarrow> Message list \<Rightarrow> Settings \<Rightarrow> nat \<Rightarrow> (error + Response) \<times> nat" where
  "FakeModel outputs msgs settings turn =
    (Inr \<lparr>resp_Message = (if turn < length outputs then outputs ! turn
                            else GetTextMessage ''default response''),
          resp_Usage = fake_usage\<rparr>, Suc turn)"

definition NewFunctionTool :: "string \<Rightarrow> string \<Rightarrow> nat Tool" where
  "NewFunctionTool name result =
    \<lparr>tool_Name = name, tool_Description = ''test tool'',
     ParamsJSONSchema = [(''type'', GoString ''object''),
                         (''properties'', GoMap [(''a'', GoMap [(''type'', GoString ''string'')])])],
     Invoke = (\<lambda>input w. (Inr result, w))\<rparr>"

definition test_config :: "Message list \<Rightarrow> int \<Rightarrow> nat RunConfig" where
  "test_config outputs n =
    \<lparr>cfg_Model = ''gpt-4o'', ModelProvider = Some (FakeModel outputs), MaxTurns = n,
     HandoffCallback = None, HandoffInputFilter = None\<rparr>"

definition no_json :: json_decoder where
  "no_json s = Inl (ErrorString ''unexpected end of JSON input'')"

definition test_env :: "(nat, 'v) Agent \<Rightarrow> (nat, 'v) env" where
  "test_env a = \<lparr>heap = (\<lambda>p. a), json_Unmarshal = no_json\<rparr>"

definition dynamic_agent :: "(nat, unit) Agent" where
  "dynamic_agent =
    (New ''Dynamic Agent'' [])\<lparr>dynamicInstructions := Some (\<lambda>w. (''Dynamic instructions'', w))\<rparr>"

text \<open>Two agents: agent 0 may hand off to agent 1 (\<^verbatim>\<open>handoff.NewHandoff\<close>).\<close>

definition NewHandoff :: "target \<Rightarrow> string \<Rightarrow> nat Handoff" where
  "NewHandoff targetAgent description =
    \<lparr>TargetAgent = targetAgent, ToolName = ''transfer_to_simple_handoff'',
     ToolDescription = ''Handoff to the simple_handoff agent to handle the request.'' @
       (if description \<noteq> [] then '' '' @ description else []),
     InputJSONSchema = [],
     ShouldHandoff = (\<lambda>input w. (Inr True, w)),
     OnHandoff = (\<lambda>inputData inputJSON w. (None, w))\<rparr>"

definition handoff_env :: "(nat, unit) env" where
  "handoff_env =
    \<lparr>heap = (\<lambda>p. if p = 0
                 then (New ''agent2'' ''agent2 instructions'')
                        \<lparr>Handoffs := [NewHandoff (AgentPtr 1) ''Handoff to agent1'']\<rparr>
                 else New ''agent1'' ''agent1 instructions''),
     json_Unmarshal = no_json\<rparr>"

definition initial_state ::
  "('w, 'v) env \<Rightarrow> nat \<Rightarrow> string \<Rightarrow> 'w RunConfig \<Rightarrow> ('w, 'v) executionState" where
  "initial_state e a input cfg =
    \<lparr>agent = a, currentAgent = a, originalInput = input, config = cfg,
     messages = prepareMessages (heap e a) input,
     resultMessages = (if input \<noteq> [] then [mk_Message ''user'' input] else []),
     usage = zero_Usage, stepCounter = 0, finalOutput = [], structuredOutput = None\<rparr>"

definition handoff_call :: Message where
  "handoff_call =
    \<lparr>Role = ''assistant'', Content = [],
     ToolCalls = [\<lparr>ID = ''handoff_call'', Type = ''function'',
                   Function = \<lparr>fn_Name = ''transfer_to_simple_handoff'', fn_Arguments = ''{}''\<rparr>\<rparr>],
     ToolCallID = [], msg_Name = []\<rparr>"

definition handoff_state :: "(nat, unit) executionState" where
  "handoff_state =
    initial_state handoff_env 0 ''user_message''
      (test_config [handoff_call, GetTextMessage ''done''] 10)"

text \<open>
  How an error of the loop reaches the caller of \<^verbatim>\<open>RunWithConfig\<close>: wrapped, so that it
  still unwraps to \<open>x\<close>, or replaced by the bare \<open>ErrMaxTurnsExceeded\<close> when \<open>x\<close> itself
  unwraps to that sentinel.
\<close>

definition propagated :: "error \<Rightarrow> error \<Rightarrow> bool" where
  "propagated e x = (errors_Is e x \<or> (e = ErrMaxTurnsExceeded \<and> errors_Is x ErrMaxTurnsExceeded))"

text \<open>
  What a turn returns when the completion service answered without tool calls, as a
  function of the recorded response.
\<close>

definition final_turn ::
  "('w, 'v) env \<Rightarrow> ('w, 'v) executionState \<Rightarrow> Message list \<Rightarrow> Response \<Rightarrow> 'w world \<Rightarrow>
     (error + 'v stepResult \<times> ('w, 'v) executionState) \<times> 'w world" where
  "final_turn e s msgs response wl =
    (case parse_structured_output (heap e (currentAgent s)) (Content (resp_Message response)) of
       Inl err \<Rightarrow> (Inl err, wl)
     | Inr structured \<Rightarrow>
        (case check_output (heap e (currentAgent s)) (Content (resp_Message response)) wl of
           (Inl err, wl2) \<Rightarrow> (Inl err, wl2)
         | (Inr checkedOutput, wl2) \<Rightarrow>
             (Inr (final_stepResult checkedOutput structured response,
                   usage_added (s\<lparr>messages := msgs\<rparr>) response), wl2)))"

definition bar_json :: string where
  \<open>bar_json = ''{"bar":"baz"}''\<close>

text \<open>\<^verbatim>\<open>json.Unmarshal\<close> into \<^verbatim>\<open>TestOutputStruct\<close>, on the two contents the tests use.\<close>

definition unmarshal_TestOutputStruct :: "string \<Rightarrow> error + string" where
  "unmarshal_TestOutputStruct s =
    (if s = bar_json then Inr ''baz''
     else Inl (ErrorString ''invalid character looking for beginning of value''))"

definition structured_agent :: "(nat, string) Agent" where
  "structured_agent =
    (New ''agent1'' ''agent1 instructions'')\<lparr>OutputType := Some unmarshal_TestOutputStruct\<rparr>"

definition structured_state :: "(nat, string) executionState" where
  "structured_state =
    initial_state (test_env structured_agent) 0 ''user_message''
      (test_config [GetTextMessage bar_json] 10)"

definition bar_response :: Response where
  "bar_response = \<lparr>resp_Message = GetTextMessage bar_json, resp_Usage = fake_usage\<rparr>"

text \<open>The guardrails of \<^verbatim>\<open>TestOutputGuardrail\<close>: one that rewrites, one that denies.\<close>

definition modify_result :: OutputGuardrailResult where
  "modify_result =
    \<lparr>og_Allowed = True, og_Message = ''Output has been modified'',
     ModifiedOutput = ''Modified output''\<rparr>"

definition deny_result :: OutputGuardrailResult where
  "deny_result =
    \<lparr>og_Allowed = False, og_Message = ''This output is not allowed'', ModifiedOutput = []\<rparr>"

definition modifyGuardrail :: "nat OutputGuardrail" where
  "modifyGuardrail =
    \<lparr>og_Name = ''Modify Guardrail'', og_Check = (\<lambda>output w. (Inr modify_result, w))\<rparr>"

definition denyGuardrail :: "nat OutputGuardrail" where
  "denyGuardrail =
    \<lparr>og_Name = ''Deny Guardrail'', og_Check = (\<lambda>output w. (Inr deny_result, w))\<rparr>"

definition modifying_agent :: "(nat, unit) Agent" where
  "modifying_agent =
    (New ''output_guarded'' ''test instructions'')\<lparr>OutputGuardrails := [modifyGuardrail]\<rparr>"

definition denying_agent :: "(nat, unit) Agent" where
  "denying_agent =
    (New ''output_guarded'' ''test instructions'')
      \<lparr>OutputGuardrails := [modifyGuardrail, denyGuardrail]\<rparr>"

definition original_response :: Response where
  "original_response =
    \<lparr>resp_Message = GetTextMessage ''Original output'', resp_Usage = fake_usage\<rparr>"

definition modifying_state :: "(nat, unit) executionState" where
  "modifying_state =
    initial_state (test_env modifying_agent) 0 ''test input''
      (test_config [GetTextMessage ''Original output''] 10)"

text \<open>A tool whose invocation fails, and a response that asks for three tools at once.\<close>

definition failing_tool :: "nat Tool" where
  "failing_tool =
    \<lparr>tool_Name = ''broken_tool'', tool_Description = ''test tool'',
     ParamsJSONSchema = [(''type'', GoString ''object'')],
     Invoke = (\<lambda>input w. (Inl (ErrorString ''tool failed''), w))\<rparr>"

definition tooled_agent :: "(nat, unit) Agent" where
  "tooled_agent =
    (New ''agent1'' ''agent1 instructions'')
      \<lparr>Tools := [NewFunctionTool ''test_tool'' ''result'', failing_tool]\<rparr>"

definition function_call :: "string \<Rightarrow> ToolCall" where
  "function_call name = hd (ToolCalls (GetFunctionToolCall name ''{}''))"



text \<open>
  \<^verbatim>\<open>handoff.NewFunctionHandoff\<close>, and an agent with two handoffs of which the first one's
  function always answers no; the other two agents are the targets.
\<close>

definition NewFunctionHandoff ::
  "target \<Rightarrow> string \<Rightarrow> (string \<Rightarrow> nat \<Rightarrow> (error + bool) \<times> nat) \<Rightarrow> nat Handoff" where
  "NewFunctionHandoff targetAgent description handoffFunc =
    \<lparr>TargetAgent = targetAgent, ToolName = ''transfer_to_function_handoff'',
     ToolDescription = ''Handoff to the function_handoff agent to handle the request.'' @
       (if description \<noteq> [] then '' '' @ description else []),
     InputJSONSchema = [],
     ShouldHandoff = handoffFunc,
     OnHandoff = (\<lambda>inputData inputJSON w. (None, w))\<rparr>"

definition never :: "string \<Rightarrow> nat \<Rightarrow> (error + bool) \<times> nat" where
  "never input w = (Inr False, w)"

definition transfer_env :: "(nat, unit) env" where
  "transfer_env =
    \<lparr>heap = (\<lambda>p. if p = 0
                 then (New ''agent0'' ''agent0 instructions'')
                        \<lparr>Handoffs := [NewFunctionHandoff (AgentPtr 1) ''Handoff to agent1'' never,
                                      NewHandoff (AgentPtr 2) ''Handoff to agent2''],
                         Tools := [NewFunctionTool ''test_tool'' ''result'']\<rparr>
                 else if p = 1 then New ''agent1'' ''agent1 instructions''
                 else New ''agent2'' ''agent2 instructions''),
     json_Unmarshal = no_json\<rparr>"

definition two_transfers :: Message where
  "two_transfers =
    \<lparr>Role = ''assistant'', Content = [],
     ToolCalls = [function_call ''transfer_to_function_handoff'',
                  function_call ''transfer_to_simple_handoff'',
                  function_call ''test_tool''],
     ToolCallID = [], msg_Name = []\<rparr>"

definition two_transfers_response :: Response where
  "two_transfers_response = \<lparr>resp_Message = two_transfers, resp_Usage = fake_usage\<rparr>"

definition two_transfers_state :: "(nat, unit) executionState" where
  "two_transfers_state =
    initial_state transfer_env 0 ''user_message''
      (test_config [two_transfers, GetTextMessage ''done''] 10)"














text \<open>The agent of \<^verbatim>\<open>TestSimpleFirstRun\<close>.\<close>

definition testAgent :: "(nat, unit) Agent" where
  "testAgent = New ''test'' ''test instructions''"

definition first_response :: Response where
  "first_response = \<lparr>resp_Message = GetTextMessage ''first'', resp_Usage = fake_usage\<rparr>"

definition first_state :: "(nat, unit) executionState" where
  "first_state =
    initial_state (test_env testAgent) 0 ''test'' (test_config [GetTextMessage ''first''] 10)"

text \<open>The agent and the outputs of \<^verbatim>\<open>TestMaxTurnsExceeded\<close>: twelve turns of the same tool call.\<close>

definition toolAgent :: "(nat, unit) Agent" where
  "toolAgent = testAgent\<lparr>Tools := [NewFunctionTool ''test_tool'' ''result'']\<rparr>"

definition tool_call_outputs :: "string \<Rightarrow> Message list" where
  "tool_call_outputs name = replicate 12 (GetFunctionToolCall name ''{}'')"

definition max_turns_state :: "(nat, unit) executionState" where
  "max_turns_state =
    initial_state (test_env toolAgent) 0 ''test input''
      (test_config (tool_call_outputs ''test_tool'') 5)"

text \<open>
  Two input guardrails that look at the input: one refuses the empty input, one refuses the
  input \<^verbatim>\<open>bad input\<close>.
\<close>

definition nonempty_guardrail :: "nat InputGuardrail" where
  "nonempty_guardrail =
    \<lparr>ig_Name = ''nonempty'',
     ig_Check = (\<lambda>input w.
       (Inr \<lparr>ig_Allowed = (input \<noteq> []),
             ig_Message = (if input \<noteq> [] then [] else ''Input is empty'')\<rparr>, w))\<rparr>"

definition bad_input_blocker :: "nat InputGuardrail" where
  "bad_input_blocker =
    \<lparr>ig_Name = ''input_blocker'',
     ig_Check = (\<lambda>input w.
       (Inr \<lparr>ig_Allowed = (input \<noteq> ''bad input''),
             ig_Message = (if input \<noteq> ''bad input'' then [] else ''Input not allowed'')\<rparr>,
        w))\<rparr>"

definition twoGuardedAgent :: "(nat, unit) Agent" where
  "twoGuardedAgent =
    (New ''input_guarded'' ''test instructions'')
      \<lparr>InputGuardrails := [nonempty_guardrail, bad_input_blocker]\<rparr>"

definition refused_result :: InputGuardrailResult where
  "refused_result = \<lparr>ig_Allowed = False, ig_Message = ''Input not allowed''\<rparr>"





definition hello_response :: Response where
  "hello_response = \<lparr>resp_Message = GetTextMessage ''hello'', resp_Usage = fake_usage\<rparr>"

definition hello_state :: "(nat, string) executionState" where
  "hello_state =
    initial_state (test_env structured_agent) 0 ''user_message''
      (test_config [GetTextMessage ''hello''] 10)"

definition empty_response :: Response where
  "empty_response = \<lparr>resp_Message = GetTextMessage [], resp_Usage = fake_usage\<rparr>"

definition empty_state :: "(nat, unit) executionState" where
  "empty_state =
    initial_state (test_env testAgent) 0 ''test'' (test_config [GetTextMessage []] 1)"

text \<open>
  Collaborators that do not fail, in whatever world they are called. The hooks return no
  error. A handoff's predicate returns no error, its schema (when it has one) accepts every
  payload that its predicate may accept, its target is nil or an agent of the set \<open>A\<close>, and
  its callback returns no error. An agent computes its instructions without error, has
  hooks, and its tools and handoffs do not fail. The completion service of a configuration
  answers every call with a response that requests invocations, and the configuration's
  callback and filter for handoffs, when set, return no error.
\<close>

definition hooks_succeed :: "('w, 'v) Hooks \<Rightarrow> bool" where
  "hooks_succeed hk =
    ((\<forall>p w. fst (OnStart hk p w) = None) \<and>
     (\<forall>p q w. fst (hook_OnHandoff hk p q w) = None) \<and>
     (\<forall>p t w. fst (OnToolStart hk p t w) = None) \<and>
     (\<forall>p t r w. fst (OnToolEnd hk p t r w) = None))"

definition handoff_succeeds :: "json_decoder \<Rightarrow> nat set \<Rightarrow> 'w Handoff \<Rightarrow> bool" where
  "handoff_succeeds unm A h =
    ((\<forall>args w. \<exists>b w'. ShouldHandoff h args w = (Inr b, w')) \<and>
     (\<forall>args w. InputJSONSchema h \<noteq> [] \<longrightarrow> fst (ShouldHandoff h args w) = Inr True \<longrightarrow>
        (\<exists>d. ValidateJSON unm args (InputJSONSchema h) = Inr d)) \<and>
     TargetAgent h \<noteq> NotAnAgent \<and>
     (\<forall>q. TargetAgent h = AgentPtr q \<longrightarrow> q \<in> A) \<and>
     (\<forall>d j w. fst (OnHandoff h d j w) = None))"

definition agent_succeeds :: "json_decoder \<Rightarrow> nat set \<Rightarrow> ('w, 'v) Agent \<Rightarrow> bool" where
  "agent_succeeds unm A a =
    ((\<forall>w. \<exists>instructions w'. GetSystemPrompt a w = (Inr instructions, w')) \<and>
     (\<exists>hk. Hooks a = Some hk \<and> hooks_succeed hk) \<and>
     (\<forall>t\<in>set (Tools a). \<forall>args w. \<exists>r w'. Invoke t args w = (Inr r, w')) \<and>
     (\<forall>h\<in>set (Handoffs a). handoff_succeeds unm A h))"

definition always_requests_tools :: "'w RunConfig \<Rightarrow> bool" where
  "always_requests_tools cfg =
    (\<exists>provider. ModelProvider cfg = Some provider \<and>
       (\<forall>msgs settings w. \<exists>response w'.
          provider msgs settings w = (Inr response, w') \<and>
          ToolCalls (resp_Message response) \<noteq> []))"

definition callbacks_succeed :: "'w RunConfig \<Rightarrow> bool" where
  "callbacks_succeed cfg =
    ((\<forall>cb. HandoffCallback cfg = Some cb \<longrightarrow> (\<forall>p q input w. fst (cb p q input w) = None)) \<and>
     (\<forall>flt. HandoffInputFilter cfg = Some flt \<longrightarrow> (\<forall>d w. fst (flt d w) = None)))"

text \<open>
  A completion service that asks for the same tool on every call, whatever its turn
  counter, and a tool whose error is the sentinel of the turn budget.
\<close>

definition persistent_model ::
  "string \<Rightarrow> Message list \<Rightarrow> Settings \<Rightarrow> nat \<Rightarrow> (error + Response) \<times> nat" where
  "persistent_model name msgs settings turn =
    (Inr \<lparr>resp_Message = GetFunctionToolCall name ''{}'', resp_Usage = fake_usage\<rparr>, Suc turn)"

definition persistent_config :: "string \<Rightarrow> int \<Rightarrow> nat RunConfig" where
  "persistent_config name n =
    \<lparr>cfg_Model = ''gpt-4o'', ModelProvider = Some (persistent_model name), MaxTurns = n,
     HandoffCallback = None, HandoffInputFilter = None\<rparr>"

definition sentinel_tool :: "nat Tool" where
  "sentinel_tool =
    \<lparr>tool_Name = ''budget_tool'', tool_Description = ''test tool'',
     ParamsJSONSchema = [(''type'', GoString ''object'')],
     Invoke = (\<lambda>input w. (Inl ErrMaxTurnsExceeded, w))\<rparr>"

definition sentinel_agent :: "(nat, unit) Agent" where
  "sentinel_agent = testAgent\<lparr>Tools := [sentinel_tool]\<rparr>"

section \<open>Trace lemmas\<close>

lemma fatal_last_Nil [simp]: "fatal_last [] r"
  by (simp add: fatal_last_def)

lemma fatal_last_single:
  "fatal_last [ev] r \<longleftrightarrow> (\<forall>x. event_failure ev = Some x \<longrightarrow> (\<exists>e. r = Some e \<and> errors_Is e x))"
  by (simp add: fatal_last_def)

lemma fatal_last_None: "fatal_last evs None \<longleftrightarrow> (\<forall>ev\<in>set evs. event_failure ev = None)"
proof
  assume "fatal_last evs None"
  then show "\<forall>ev\<in>set evs. event_failure ev = None"
    by (auto simp: fatal_last_def in_set_conv_nth)
next
  assume a: "\<forall>ev\<in>set evs. event_failure ev = None"
  show "fatal_last evs None"
    unfolding fatal_last_def using a nth_mem by fastforce
qed

lemma fatal_last_no_failure: "\<forall>ev\<in>set evs. event_failure ev = None \<Longrightarrow> fatal_last evs r"
  unfolding fatal_last_def using nth_mem by fastforce

lemma fatal_last_append:
  assumes "fatal_last evs1 None" and "fatal_last evs2 r"
  shows "fatal_last (evs1 @ evs2) r"
  unfolding fatal_last_def
proof (intro allI impI)
  fix i x
  assume i: "i < length (evs1 @ evs2)" and f: "event_failure ((evs1 @ evs2) ! i) = Some x"
  show "Suc i = length (evs1 @ evs2) \<and> (\<exists>e. r = Some e \<and> errors_Is e x)"
  proof (cases "i < length evs1")
    case True
    then have "event_failure (evs1 ! i) = Some x" using f by (simp add: nth_append)
    with assms(1) True show ?thesis by (auto simp: fatal_last_def)
  next
    case False
    then have "i - length evs1 < length evs2" "event_failure (evs2 ! (i - length evs1)) = Some x"
      using i f by (auto simp: nth_append)
    with assms(2) have "Suc (i - length evs1) = length evs2 \<and> (\<exists>e. r = Some e \<and> errors_Is e x)"
      by (auto simp: fatal_last_def)
    with False show ?thesis by auto
  qed
qed

lemma errors_Is_refl [simp]: "errors_Is e e"
  by (cases e) auto

lemma errors_Is_Wrap: "errors_Is e x \<Longrightarrow> errors_Is (Wrap p e s) x"
  by simp

lemma fatal_last_wrap: "fatal_last evs (Some e) \<Longrightarrow> fatal_last evs (Some (Wrap p e s))"
  by (auto simp: fatal_last_def)

lemma fatal_last_snoc_ok:
  "fatal_last evs None \<Longrightarrow> fatal_last [ev] r \<Longrightarrow> fatal_last (evs @ [ev]) r"
  by (rule fatal_last_append)

lemma applyInputGuardrails_loop_shape:
  "applyInputGuardrails_loop i gs input (w, log) = (r, (w', log')) \<Longrightarrow>
     \<exists>evs. log' = log @ evs \<and> length evs \<le> length gs \<and>
       (\<forall>j<length evs. \<exists>x. evs ! j = EvInputGuardrail (i + j) input x) \<and>
       (\<forall>j. Suc j < length evs \<longrightarrow> event_failure (evs ! j) = None) \<and>
       (r = None \<longrightarrow> length evs = length gs \<and> (\<forall>ev\<in>set evs. event_failure ev = None)) \<and>
       (\<forall>e. r = Some e \<longrightarrow> evs \<noteq> [] \<and> event_failure (last evs) = Some e)"
proof (induction gs arbitrary: i w log)
  case Nil
  then show ?case by simp
next
  case (Cons g gs)
  obtain x w1 where c: "ig_Check g input w = (x, w1)" by (cases "ig_Check g input w")
  let ?ev = "EvInputGuardrail i input x"
  show ?case
  proof (cases "event_failure ?ev")
    case (Some e)
    then have "r = Some e" "log' = log @ [?ev]"
      using Cons.prems c by (auto split: sum.splits if_splits)
    then show ?thesis using Some by (intro exI [of _ "[?ev]"]) simp
  next
    case None
    then have rec: "applyInputGuardrails_loop (Suc i) gs input (w1, log @ [?ev]) = (r, (w', log'))"
      using Cons.prems c by (auto split: sum.splits if_splits)
    from Cons.IH [OF rec] obtain evs where evs:
      "log' = (log @ [?ev]) @ evs" "length evs \<le> length gs"
      "\<forall>j<length evs. \<exists>x. evs ! j = EvInputGuardrail (Suc i + j) input x"
      "\<forall>j. Suc j < length evs \<longrightarrow> event_failure (evs ! j) = None"
      "r = None \<longrightarrow> length evs = length gs \<and> (\<forall>ev\<in>set evs. event_failure ev = None)"
      "\<forall>e. r = Some e \<longrightarrow> evs \<noteq> [] \<and> event_failure (last evs) = Some e"
      by blast
    show ?thesis
    proof (intro exI [of _ "?ev # evs"] conjI)
      show "log' = log @ ?ev # evs" using evs(1) by simp
      show "length (?ev # evs) \<le> length (g # gs)" using evs(2) by simp
      show "\<forall>j<length (?ev # evs). \<exists>x. (?ev # evs) ! j = EvInputGuardrail (i + j) input x"
        using evs(3) by (auto simp: nth_Cons split: nat.splits)
      show "\<forall>j. Suc j < length (?ev # evs) \<longrightarrow> event_failure ((?ev # evs) ! j) = None"
        using evs(4) None by (auto simp: nth_Cons split: nat.splits)
      show "r = None \<longrightarrow> length (?ev # evs) = length (g # gs) \<and>
              (\<forall>ev\<in>set (?ev # evs). event_failure ev = None)"
        using evs(5) None by auto
      show "\<forall>e. r = Some e \<longrightarrow> ?ev # evs \<noteq> [] \<and> event_failure (last (?ev # evs)) = Some e"
        using evs(6) by auto
    qed
  qed
qed

lemma applyOutputGuardrails_loop_shape:
  "applyOutputGuardrails_loop i gs out (w, log) = (r, (w', log')) \<Longrightarrow>
     \<exists>evs. log' = log @ evs \<and> (\<forall>ev\<in>set evs. is_output_guardrail ev) \<and>
       fatal_last evs (err_of r)"
proof (induction gs arbitrary: i out w log)
  case Nil
  then show ?case by simp
next
  case (Cons g gs)
  obtain x w1 where c: "og_Check g out w = (x, w1)" by (cases "og_Check g out w")
  let ?ev = "EvOutputGuardrail i out x"
  show ?case
  proof (cases "event_failure ?ev")
    case (Some e)
    then have "r = Inl e" "log' = log @ [?ev]"
      using Cons.prems c by (auto split: sum.splits if_splits)
    then show ?thesis using Some by (intro exI [of _ "[?ev]"]) (simp add: fatal_last_single)
  next
    case None
    then obtain out1 where
      rec: "applyOutputGuardrails_loop (Suc i) gs out1 (w1, log @ [?ev]) = (r, (w', log'))"
      using Cons.prems c by (auto split: sum.splits if_splits)
    from Cons.IH [OF rec] obtain evs where evs:
      "log' = (log @ [?ev]) @ evs" "\<forall>ev\<in>set evs. is_output_guardrail ev"
      "fatal_last evs (err_of r)"
      by blast
    have "fatal_last ([?ev] @ evs) (err_of r)"
      using None evs(3) by (intro fatal_last_append) (simp_all add: fatal_last_None)
    then show ?thesis
      using evs by (intro exI [of _ "?ev # evs"]) simp
  qed
qed

lemma executeToolWithTracing_shape:
  "executeToolWithTracing p a t args (w, log) = (r, (w', log')) \<Longrightarrow>
     \<exists>evs. log' = log @ evs \<and> (\<forall>ev\<in>set evs. is_tool_invoke ev) \<and> fatal_last evs (err_of r)"
  by (auto simp: fatal_last_single split: option.splits prod.splits sum.splits)

lemma executeTools_shape:
  "executeTools p a tcs (w, log) = (r, (w', log')) \<Longrightarrow>
     \<exists>evs. log' = log @ evs \<and> (\<forall>ev\<in>set evs. is_tool_invoke ev) \<and> fatal_last evs (err_of r)"
proof (induction tcs arbitrary: w log r)
  case Nil
  then show ?case by simp
next
  case (Cons tc rest)
  show ?case
  proof (cases "find (\<lambda>t. tool_Name t = fn_Name (Function tc)) (Tools a)")
    case None
    then obtain r0 where rec: "executeTools p a rest (w, log) = (r0, (w', log'))"
      and r: "err_of r = err_of r0"
      using Cons.prems by (auto split: prod.splits sum.splits)
    from Cons.IH [OF rec] r show ?thesis by simp
  next
    case (Some t)
    obtain x w1 log1 where t: "executeToolWithTracing p a t (fn_Arguments (Function tc)) (w, log) = (x, (w1, log1))"
      by (metis surj_pair)
    from executeToolWithTracing_shape [OF t] obtain evs1 where evs1:
      "log1 = log @ evs1" "\<forall>ev\<in>set evs1. is_tool_invoke ev" "fatal_last evs1 (err_of x)"
      by blast
    show ?thesis
    proof (cases x)
      case (Inl err)
      then have "r = Inl (Wrap ''tool execution error: '' err [])" "log' = log1"
        using Cons.prems Some t by auto
      then show ?thesis using evs1 Inl
        by (intro exI [of _ evs1]) (simp add: fatal_last_wrap)
    next
      case (Inr resp)
      then obtain r0 where rec: "executeTools p a rest (w1, log1) = (r0, (w', log'))"
        and r: "err_of r = err_of r0"
        using Cons.prems Some t by (auto split: prod.splits sum.splits)
      from Cons.IH [OF rec] obtain evs2 where evs2:
        "log' = log1 @ evs2" "\<forall>ev\<in>set evs2. is_tool_invoke ev" "fatal_last evs2 (err_of r0)"
        by blast
      have "fatal_last (evs1 @ evs2) (err_of r)"
        using evs1(3) evs2(3) Inr r by (intro fatal_last_append) simp_all
      then show ?thesis using evs1 evs2
        by (intro exI [of _ "evs1 @ evs2"]) auto
    qed
  qed
qed

lemma scanHandoffs_shape:
  "scanHandoffs unm message tc hs (w, log) = (r, (w', log')) \<Longrightarrow>
     log' = log \<and>
     (\<forall>sr. r = Inr (Some sr) \<longrightarrow>
        sr_finalOutput sr = [] \<and> sr_messages sr = [message] \<and> sr_structuredOutput sr = None)"
  by (induction hs arbitrary: w)
     (auto simp: handoff_stepResult_def split: if_splits prod.splits sum.splits target.splits)

lemma scanToolCalls_shape:
  fixes r :: "error + 'v stepResult option"
  shows "scanToolCalls unm message hs tcs (w, log) = (r, (w', log')) \<Longrightarrow>
     log' = log \<and>
     (\<forall>sr. r = Inr (Some sr) \<longrightarrow>
        sr_finalOutput sr = [] \<and> sr_messages sr = [message] \<and> sr_structuredOutput sr = None)"
proof (induction tcs arbitrary: w)
  case Nil
  then show ?case by auto
next
  case (Cons tc rest)
  obtain x w1 log1 where s:
    "scanHandoffs unm message tc hs (w, log) = (x :: error + 'v stepResult option, (w1, log1))"
    by (metis surj_pair)
  from scanHandoffs_shape [OF s] have l: "log1 = log"
    and m: "\<forall>sr. x = Inr (Some sr) \<longrightarrow>
        sr_finalOutput sr = [] \<and> sr_messages sr = [message] \<and> sr_structuredOutput sr = None"
    by simp_all
  show ?case
  proof (cases x)
    case (Inl err)
    then show ?thesis using Cons.prems s l by auto
  next
    case (Inr o1)
    show ?thesis
    proof (cases o1)
      case None
      then have "scanToolCalls unm message hs rest (w1, log) = (r, (w', log'))"
        using Cons.prems s l Inr by simp
      from Cons.IH [OF this] show ?thesis .
    next
      case (Some sr)
      then show ?thesis using Cons.prems s l m Inr by auto
    qed
  qed
qed

lemma processToolCallsAndHandoffs_shape:
  fixes e :: "('w, 'v) env" and r :: "error + 'v stepResult"
  assumes "processToolCallsAndHandoffs e p message (w, log) = (r, (w', log'))"
  shows "\<exists>evs. log' = log @ evs \<and> (\<forall>ev\<in>set evs. is_tool_invoke ev) \<and>
           fatal_last evs (err_of r) \<and>
           (\<forall>sr. r = Inr sr \<longrightarrow> sr_finalOutput sr = [] \<and>
              (nextAgent sr \<noteq> None \<longrightarrow> evs = [] \<and> sr_messages sr = [message]))"
proof (cases "length (ToolCalls message) = 0")
  case True
  then show ?thesis using assms by (auto simp: processToolCallsAndHandoffs_def)
next
  case False
  obtain x w1 log1 where s:
    "scanToolCalls (json_Unmarshal e) message (Handoffs (heap e p)) (ToolCalls message) (w, log)
       = (x :: error + 'v stepResult option, (w1, log1))"
    by (metis surj_pair)
  from scanToolCalls_shape [OF s] have l: "log1 = log"
    and m: "\<forall>sr. x = Inr (Some sr) \<longrightarrow>
        sr_finalOutput sr = [] \<and> sr_messages sr = [message] \<and> sr_structuredOutput sr = None"
    by simp_all
  show ?thesis
  proof (cases x)
    case (Inl err)
    then have "r = Inl err" "log' = log"
      using assms False s l by (auto simp: processToolCallsAndHandoffs_def)
    then show ?thesis by simp
  next
    case (Inr o1)
    show ?thesis
    proof (cases o1)
      case (Some sr)
      then have "r = Inr sr" "log' = log"
        using assms False s l Inr by (auto simp: processToolCallsAndHandoffs_def)
      then show ?thesis using m Inr Some by simp
    next
      case None
      obtain y w2 log2 where t:
        "executeTools p (heap e p) (ToolCalls message) (w1, log) = (y, (w2, log2))"
        by (metis surj_pair)
      from executeTools_shape [OF t] obtain evs where evs:
        "log2 = log @ evs" "\<forall>ev\<in>set evs. is_tool_invoke ev" "fatal_last evs (err_of y)"
        by blast
      have "log' = log2 \<and> err_of r = err_of y \<and>
            (\<forall>sr. r = Inr sr \<longrightarrow> sr_finalOutput sr = [] \<and> nextAgent sr = None)"
        using assms False s l Inr None t
        by (auto simp: processToolCallsAndHandoffs_def split: sum.splits)
      then show ?thesis using evs by (intro exI [of _ evs]) auto
    qed
  qed
qed

lemma model_calls_simps [simp]:
  "model_calls [] = 0"
  "model_calls (ev # evs) = (if is_model_call ev then Suc (model_calls evs) else model_calls evs)"
  "model_calls (evs1 @ evs2) = model_calls evs1 + model_calls evs2"
  by (simp_all add: model_calls_def)

lemma model_calls_tools: "\<forall>ev\<in>set evs. is_tool_invoke ev \<Longrightarrow> model_calls evs = 0"
  by (induction evs) (auto elim: is_tool_invoke.elims)

lemma model_calls_output_guardrails: "\<forall>ev\<in>set evs. is_output_guardrail ev \<Longrightarrow> model_calls evs = 0"
  by (induction evs) (auto elim: is_output_guardrail.elims)

lemma tools_not_input_guardrail: "is_tool_invoke ev \<Longrightarrow> \<not> is_input_guardrail ev"
  by (cases ev) auto

lemma output_not_input_guardrail: "is_output_guardrail ev \<Longrightarrow> \<not> is_input_guardrail ev"
  by (cases ev) auto

lemma processAgentStep_None:
  "ModelProvider (config s) = None \<Longrightarrow> processAgentStep e s (w, log) = (Inl nil_deref, (w, log))"
  by (simp add: Let_def)

lemma processAgentStep_error:
  "ModelProvider (config s) = Some provider \<Longrightarrow>
   provider (messages s) (turn_settings e s) w = (Inl err, w1) \<Longrightarrow>
   processAgentStep e s (w, log) =
     (Inl (Wrap ''LLM call failed: '' err []), (w1, log @ [EvModelCall (messages s) (Inl err)]))"
  by (simp add: Let_def turn_settings_def)

lemma processAgentStep_tools:
  "ModelProvider (config s) = Some provider \<Longrightarrow>
   provider (messages s) (turn_settings e s) w = (Inr response, w1) \<Longrightarrow>
   ToolCalls (resp_Message response) \<noteq> [] \<Longrightarrow>
   processAgentStep e s (w, log) =
     (case processToolCallsAndHandoffs e (currentAgent s) (resp_Message response)
             (w1, log @ [EvModelCall (messages s) (Inr response)]) of
        (Inl err, wl2) \<Rightarrow> (Inl err, wl2)
      | (Inr sr, wl2) \<Rightarrow> (Inr (sr, usage_added s response), wl2))"
  by (simp add: Let_def turn_settings_def usage_added_def cong: prod.case_cong sum.case_cong)

lemma processAgentStep_final:
  "ModelProvider (config s) = Some provider \<Longrightarrow>
   provider (messages s) (turn_settings e s) w = (Inr response, w1) \<Longrightarrow>
   ToolCalls (resp_Message response) = [] \<Longrightarrow>
   processAgentStep e s (w, log) =
     (case parse_structured_output (heap e (currentAgent s)) (Content (resp_Message response)) of
        Inl err \<Rightarrow> (Inl err, (w1, log @ [EvModelCall (messages s) (Inr response)]))
      | Inr structured \<Rightarrow>
         (case check_output (heap e (currentAgent s)) (Content (resp_Message response))
                 (w1, log @ [EvModelCall (messages s) (Inr response)]) of
            (Inl err, wl2) \<Rightarrow> (Inl err, wl2)
          | (Inr checkedOutput, wl2) \<Rightarrow>
              (Inr (final_stepResult checkedOutput structured response, usage_added s response),
               wl2)))"
  by (simp add: Let_def turn_settings_def usage_added_def final_stepResult_def
      cong: prod.case_cong sum.case_cong)

lemma check_output_shape:
  assumes "check_output a out (w, log) = (y, (w2, log2))"
  shows "\<exists>evs. log2 = log @ evs \<and> (\<forall>ev\<in>set evs. is_output_guardrail ev) \<and>
       fatal_last evs (err_of y)"
proof (cases "length (OutputGuardrails a) > 0")
  case True
  then have "applyOutputGuardrails_loop 0 (OutputGuardrails a) out (w, log) = (y, (w2, log2))"
    using assms by (simp add: check_output_def applyOutputGuardrails_def)
  from applyOutputGuardrails_loop_shape [OF this] show ?thesis .
next
  case False
  then have "log2 = log" "\<exists>x. y = Inr x" using assms by (auto simp: check_output_def)
  then show ?thesis by (intro exI [of _ "[]"]) auto
qed

declare processAgentStep.simps [simp del]

lemma processAgentStep_shape:
  fixes e :: "('w, 'v) env" and r :: "error + 'v stepResult \<times> ('w, 'v) executionState"
  assumes "processAgentStep e s (w, log) = (r, (w', log'))"
  shows "\<exists>evs. log' = log @ evs \<and> fatal_last evs (err_of r) \<and> turn_shape evs \<and>
           (\<forall>sr s1. r = Inr (sr, s1) \<longrightarrow> evs \<noteq> [] \<and>
              ((\<forall>ev\<in>set evs. requests_tools ev) \<longrightarrow> sr_finalOutput sr = []))"
proof (cases "ModelProvider (config s)")
  case None
  then have "log' = log" "\<exists>err. r = Inl err" using assms by (auto simp: processAgentStep_None)
  then show ?thesis by (intro exI [of _ "[]"]) (auto simp: turn_shape_def)
next
  case (Some provider)
  let ?a = "heap e (currentAgent s)"
  obtain x w1 where c: "provider (messages s) (turn_settings e s) w = (x, w1)"
    by (cases "provider (messages s) (turn_settings e s) w")
  let ?ev = "EvModelCall (messages s) x"
  show ?thesis
  proof (cases x)
    case (Inl err)
    then have "r = Inl (Wrap ''LLM call failed: '' err [])" "log' = log @ [?ev]"
      using assms processAgentStep_error [OF Some, of e w err w1 log] c by auto
    then show ?thesis using Inl
      by (intro exI [of _ "[?ev]"]) (auto simp: fatal_last_single turn_shape_def)
  next
    case (Inr response)
    have ev_ok: "fatal_last [?ev] None" using Inr by (simp add: fatal_last_single)
    have c': "provider (messages s) (turn_settings e s) w = (Inr response, w1)"
      using c Inr by simp
    show ?thesis
    proof (cases "ToolCalls (resp_Message response) \<noteq> []")
      case True
      obtain y w2 log2 where t:
        "processToolCallsAndHandoffs e (currentAgent s) (resp_Message response) (w1, log @ [?ev])
           = (y :: error + 'v stepResult, (w2, log2))"
        by (metis surj_pair)
      from processToolCallsAndHandoffs_shape [OF t] obtain evs where evs:
        "log2 = (log @ [?ev]) @ evs" "\<forall>ev\<in>set evs. is_tool_invoke ev"
        "fatal_last evs (err_of y)" "\<forall>sr. y = Inr sr \<longrightarrow> sr_finalOutput sr = []"
        by blast
      have r: "log' = log2 \<and> err_of r = err_of y \<and> (\<forall>sr s1. r = Inr (sr, s1) \<longrightarrow> y = Inr sr)"
        using assms t Inr unfolding processAgentStep_tools [OF Some c' True]
        by (auto split: sum.splits)
      have fl: "fatal_last ([?ev] @ evs) (err_of r)"
        using ev_ok evs(3) r by (intro fatal_last_append) simp_all
      have ts: "turn_shape (?ev # evs)"
        using evs(2) by (auto simp: turn_shape_def model_calls_tools tools_not_input_guardrail)
      have fo: "\<forall>sr s1. r = Inr (sr, s1) \<longrightarrow> sr_finalOutput sr = []"
        using evs(4) r by blast
      show ?thesis
      proof (intro exI [of _ "?ev # evs"] conjI)
        show "log' = log @ ?ev # evs" using evs(1) r by simp
        show "fatal_last (?ev # evs) (err_of r)" using fl by simp
        show "turn_shape (?ev # evs)" by (rule ts)
        show "\<forall>sr s1. r = Inr (sr, s1) \<longrightarrow> ?ev # evs \<noteq> [] \<and>
                ((\<forall>ev\<in>set (?ev # evs). requests_tools ev) \<longrightarrow> sr_finalOutput sr = [])"
          using fo by blast
      qed
    next
      case False
      then have nt: "ToolCalls (resp_Message response) = []" by simp
      let ?content = "Content (resp_Message response)"
      note unf = processAgentStep_final [OF Some c' nt, of log]
      show ?thesis
      proof (cases "parse_structured_output ?a ?content")
        case (Inl err)
        then have "r = Inl err" "log' = log @ [?ev]"
          using assms \<open>x = Inr response\<close> unfolding unf by auto
        then show ?thesis using \<open>x = Inr response\<close> nt
          by (intro exI [of _ "[?ev]"]) (auto simp: fatal_last_single turn_shape_def)
      next
        case (Inr structured)
        obtain y w2 log2 where g:
          "check_output ?a ?content (w1, log @ [?ev]) = (y, (w2, log2))"
          by (metis surj_pair)
        from check_output_shape [OF g] obtain evs where evs:
          "log2 = (log @ [?ev]) @ evs" "\<forall>ev\<in>set evs. is_output_guardrail ev"
          "fatal_last evs (err_of y)"
          by blast
        have r: "log' = log2 \<and> err_of r = err_of y"
          using assms \<open>x = Inr response\<close> Inr g unfolding unf
          by (auto split: sum.splits)
        have fl: "fatal_last ([?ev] @ evs) (err_of r)"
          using ev_ok evs(3) r by (intro fatal_last_append) simp_all
        have ts: "turn_shape (?ev # evs)"
          using evs(2)
          by (auto simp: turn_shape_def model_calls_output_guardrails output_not_input_guardrail)
        show ?thesis
        proof (intro exI [of _ "?ev # evs"] conjI)
          show "log' = log @ ?ev # evs" using evs(1) r by simp
          show "fatal_last (?ev # evs) (err_of r)" using fl by simp
          show "turn_shape (?ev # evs)" by (rule ts)
          show "\<forall>sr s1. r = Inr (sr, s1) \<longrightarrow> ?ev # evs \<noteq> [] \<and>
                  ((\<forall>ev\<in>set (?ev # evs). requests_tools ev) \<longrightarrow> sr_finalOutput sr = [])"
            using \<open>x = Inr response\<close> nt by simp
        qed
      qed
    qed
  qed
qed

lemma lift_io_log: "lift_io f (w, log) = (r, (w', log')) \<Longrightarrow> log' = log"
  by (auto split: prod.splits)

lemma runSingleTurn_shape:
  fixes e :: "('w, 'v) env" and r :: "error + 'v stepResult \<times> ('w, 'v) executionState"
  assumes "runSingleTurn e s (w, log) = (r, (w', log'))"
  shows "\<exists>evs. log' = log @ evs \<and> fatal_last evs (err_of r) \<and> turn_shape evs \<and>
           (\<forall>sr s1. r = Inr (sr, s1) \<longrightarrow> evs \<noteq> [] \<and>
              ((\<forall>ev\<in>set evs. requests_tools ev) \<longrightarrow> sr_finalOutput sr = []))"
proof -
  obtain x w1 log1 where g:
    "lift_io (GetSystemPrompt (heap e (currentAgent s))) (w, log) = (x, (w1, log1))"
    by (metis surj_pair)
  have l: "log1 = log" using lift_io_log [OF g] .
  show ?thesis
  proof (cases x)
    case (Inl err)
    then have "log' = log" "\<exists>err. r = Inl err"
      using assms g l by (auto simp: runSingleTurn_def)
    then show ?thesis by (intro exI [of _ "[]"]) (auto simp: turn_shape_def)
  next
    case (Inr instructions)
    then have "processAgentStep e (s\<lparr>messages := set_system_content (messages s) instructions\<rparr>)
        (w1, log) = (r, (w', log'))"
      using assms g l by (simp add: runSingleTurn_def)
    from processAgentStep_shape [OF this] show ?thesis .
  qed
qed

lemma processHandoffCallbacks_shape:
  "processHandoffCallbacks e s next input (w, log) = (r, (w', log')) \<Longrightarrow>
     log' = log \<and> r \<noteq> Some ErrMaxTurnsExceeded"
  by (auto simp: processHandoffCallbacks_def processTargetHandoff_def nil_deref_def
      split: option.splits prod.splits)

lemma applyHandoffInputFilter_shape:
  "applyHandoffInputFilter e s next input (w, log) = (r, (w', log')) \<Longrightarrow>
     log' = log \<and> r \<noteq> Some ErrMaxTurnsExceeded"
  by (auto simp: applyHandoffInputFilter_def split: option.splits prod.splits)

lemma updateMessagesForNewAgent_shape:
  "updateMessagesForNewAgent e s next (w, log) = (r, (w', log')) \<Longrightarrow>
     log' = log \<and> r \<noteq> Inl ErrMaxTurnsExceeded \<and>
     (\<forall>s1. r = Inr s1 \<longrightarrow> config s1 = config s \<and> stepCounter s1 = stepCounter s \<and>
        finalOutput s1 = finalOutput s)"
  by (auto simp: updateMessagesForNewAgent_def split: sum.splits prod.splits)

lemma handleAgentHandoff_shape:
  assumes "handleAgentHandoff e s next input (w, log) = (r, (w', log'))"
  shows "log' = log \<and> r \<noteq> Inl ErrMaxTurnsExceeded \<and>
     (\<forall>s1. r = Inr s1 \<longrightarrow> config s1 = config s \<and> stepCounter s1 = stepCounter s \<and>
        finalOutput s1 = finalOutput s)"
proof -
  obtain r1 w1 log1 where c1: "processHandoffCallbacks e s next input (w, log) = (r1, (w1, log1))"
    by (metis surj_pair)
  note s1 = processHandoffCallbacks_shape [OF c1]
  show ?thesis
  proof (cases r1)
    case (Some err)
    then show ?thesis using assms c1 s1 by (auto simp: handleAgentHandoff_def)
  next
    case None
    obtain r2 w2 log2 where c2: "applyHandoffInputFilter e s next input (w1, log) = (r2, (w2, log2))"
      by (metis surj_pair)
    note s2 = applyHandoffInputFilter_shape [OF c2]
    show ?thesis
    proof (cases r2)
      case (Some err)
      then show ?thesis using assms c1 s1 None c2 s2 by (auto simp: handleAgentHandoff_def)
    next
      case n2: None
      obtain r3 w3 log3 where c3: "updateMessagesForNewAgent e s next (w2, log) = (r3, (w3, log3))"
        by (metis surj_pair)
      note s3 = updateMessagesForNewAgent_shape [OF c3]
      show ?thesis
      proof (cases r3)
        case (Inl err)
        then show ?thesis using assms c1 s1 None c2 s2 n2 c3 s3
          by (auto simp: handleAgentHandoff_def)
      next
        case (Inr st)
        have step: "handleAgentHandoff e s next input (w, log) =
          (case Hooks (heap e (currentAgent st)) of
             None \<Rightarrow> (Inl nil_deref, (w3, log))
           | Some hk \<Rightarrow>
              (case lift_io (OnStart hk (currentAgent st)) (w3, log) of
                 (Some err, wl4) \<Rightarrow>
                   (Inl (Wrap ''error in OnStart hook for next agent: '' err []), wl4)
               | (None, wl4) \<Rightarrow> (Inr st, wl4)))"
          using c1 s1 None c2 s2 n2 c3 s3 Inr by (simp add: handleAgentHandoff_def)
        show ?thesis using assms s3 Inr unfolding step
          by (auto simp: nil_deref_def split: option.splits prod.splits)
      qed
    qed
  qed
qed

lemma processStepResult_shape:
  assumes "processStepResult e s sr (w, log) = (r, (w', log'))"
  shows "log' = log \<and> r \<noteq> Inl ErrMaxTurnsExceeded \<and>
     (\<forall>s1. r = Inr s1 \<longrightarrow> config s1 = config s \<and> stepCounter s1 = stepCounter s \<and>
        (sr_finalOutput sr = [] \<longrightarrow> finalOutput s1 = finalOutput s))"
proof (cases "nextAgent sr")
  case (Some nxt)
  let ?s1 = "s\<lparr>messages := messages s @ sr_messages sr,
                resultMessages := resultMessages s @ sr_messages sr\<rparr>"
  have "handleAgentHandoff e ?s1 nxt (handoffInput sr) (w, log) = (r, (w', log'))"
    using assms Some by (simp add: processStepResult_def Let_def)
  from handleAgentHandoff_shape [OF this] show ?thesis by simp
next
  case None
  then show ?thesis using assms by (auto simp: processStepResult_def Let_def split: if_splits)
qed

lemma runAgentExecutionLoop_end_shape:
  assumes "runAgentExecutionLoop_end e s (w, log) = (r, (w', log'))"
  shows "log' = log \<and> (finalOutput s = [] \<longrightarrow> r = Inl ErrMaxTurnsExceeded)"
  using assms
  by (auto simp: runAgentExecutionLoop_end_def split: if_splits option.splits prod.splits)

lemma loop_stop:
  "\<not> stepCounter s < MaxTurns (config s) \<Longrightarrow>
     runAgentExecutionLoop e s wl = runAgentExecutionLoop_end e s wl"
  by (subst runAgentExecutionLoop.simps) simp

lemma loop_turn_error:
  "stepCounter s < MaxTurns (config s) \<Longrightarrow> runSingleTurn e s wl = (Inl err, wl1) \<Longrightarrow>
     runAgentExecutionLoop e s wl =
       (Inl (Wrap (''step '' @ itoa_int (stepCounter s + 1) @ '' error: '') err []), wl1)"
  by (subst runAgentExecutionLoop.simps) simp

lemma loop_result_error:
  "stepCounter s < MaxTurns (config s) \<Longrightarrow> runSingleTurn e s wl = (Inr (sr, s1), wl1) \<Longrightarrow>
   processStepResult e s1 sr wl1 = (Inl err, wl2) \<Longrightarrow>
     runAgentExecutionLoop e s wl = (Inl err, wl2)"
  by (subst runAgentExecutionLoop.simps) simp

lemma loop_final:
  "stepCounter s < MaxTurns (config s) \<Longrightarrow> runSingleTurn e s wl = (Inr (sr, s1), wl1) \<Longrightarrow>
   processStepResult e s1 sr wl1 = (Inr s2, wl2) \<Longrightarrow> finalOutput s2 \<noteq> [] \<Longrightarrow>
     runAgentExecutionLoop e s wl = runAgentExecutionLoop_end e s2 wl2"
  by (subst runAgentExecutionLoop.simps) simp

lemma loop_continue:
  "stepCounter s < MaxTurns (config s) \<Longrightarrow> runSingleTurn e s wl = (Inr (sr, s1), wl1) \<Longrightarrow>
   processStepResult e s1 sr wl1 = (Inr s2, wl2) \<Longrightarrow> finalOutput s2 = [] \<Longrightarrow>
     runAgentExecutionLoop e s wl =
       runAgentExecutionLoop e (s2\<lparr>stepCounter := stepCounter s2 + 1\<rparr>) wl2"
  by (subst runAgentExecutionLoop.simps) simp

lemma turn_shape_calls:
  "turn_shape evs \<Longrightarrow> model_calls evs = (if evs = [] then 0 else 1)"
  by (cases evs) (auto simp: turn_shape_def)

lemma turn_shape_no_input: "turn_shape evs \<Longrightarrow> ev \<in> set evs \<Longrightarrow> \<not> is_input_guardrail ev"
  by (cases evs) (auto simp: turn_shape_def)

lemma loop_trace:
  fixes e :: "('w, 'v) env" and res :: "error + 'v Result"
  assumes "runAgentExecutionLoop e s (w, log) = (res, (w', log'))"
  shows "\<exists>evs. log' = log @ evs \<and> fatal_last evs (err_of res) \<and>
           (\<forall>ev\<in>set evs. \<not> is_input_guardrail ev) \<and>
           (finalOutput s = [] \<longrightarrow> stepCounter s \<le> MaxTurns (config s) \<longrightarrow>
              (\<forall>ev\<in>set evs. requests_tools ev) \<longrightarrow> budget_outcome s evs res)"
  using assms
proof (induction "nat (MaxTurns (config s) - stepCounter s)" arbitrary: s w log)
  case 0
  then have stop: "\<not> stepCounter s < MaxTurns (config s)" by simp
  from "0.prems" have en: "runAgentExecutionLoop_end e s (w, log) = (res, (w', log'))"
    by (simp add: loop_stop [OF stop])
  note sh = runAgentExecutionLoop_end_shape [OF en]
  have "finalOutput s = [] \<longrightarrow> stepCounter s \<le> MaxTurns (config s) \<longrightarrow> budget_outcome s [] res"
    using sh stop by (auto simp: budget_outcome_def)
  then show ?case using sh by (intro exI [of _ "[]"]) simp
next
  case (Suc n)
  then have lt: "stepCounter s < MaxTurns (config s)" by simp
  obtain r1 w1 log1 where t: "runSingleTurn e s (w, log) = (r1, (w1, log1))"
    by (metis surj_pair)
  from runSingleTurn_shape [OF t] obtain evs1 where evs1:
    "log1 = log @ evs1" "fatal_last evs1 (err_of r1)" "turn_shape evs1"
    "\<forall>sr s1. r1 = Inr (sr, s1) \<longrightarrow> evs1 \<noteq> [] \<and>
        ((\<forall>ev\<in>set evs1. requests_tools ev) \<longrightarrow> sr_finalOutput sr = [])"
    by blast
  have calls1: "model_calls evs1 = (if evs1 = [] then 0 else 1)"
    using evs1(3) by (rule turn_shape_calls)
  have noin1: "\<forall>ev\<in>set evs1. \<not> is_input_guardrail ev"
    using evs1(3) turn_shape_no_input by blast
  show ?case
  proof (cases r1)
    case (Inl err)
    have res: "res = Inl (Wrap (''step '' @ itoa_int (stepCounter s + 1) @ '' error: '') err [])"
      and l: "log' = log1"
      using Suc.prems t Inl by (simp_all add: loop_turn_error [OF lt])
    have "fatal_last evs1 (err_of res)"
      using evs1(2) Inl res by (simp add: fatal_last_wrap)
    moreover have "budget_outcome s evs1 res"
      using res calls1 lt by (auto simp: budget_outcome_def)
    ultimately show ?thesis using evs1(1) l noin1 by (intro exI [of _ evs1]) simp
  next
    case (Inr p)
    obtain sr s1 where p: "p = (sr, s1)" by (cases p)
    have t': "runSingleTurn e s (w, log) = (Inr (sr, s1), (w1, log1))"
      using t Inr p by simp
    have ne1: "evs1 \<noteq> []" using evs1(4) Inr p by simp
    have ok1: "fatal_last evs1 None" using evs1(2) Inr by simp
    have fr1: "config s1 = config s \<and> stepCounter s1 = stepCounter s"
      using runSingleTurn_frame [OF t'] by simp
    obtain r2 w2 log2 where pr: "processStepResult e s1 sr (w1, log1) = (r2, (w2, log2))"
      by (metis surj_pair)
    note sh2 = processStepResult_shape [OF pr]
    show ?thesis
    proof (cases r2)
      case (Inl err)
      have res: "res = Inl err" and l: "log' = log1"
        using Suc.prems pr Inl sh2 by (simp_all add: loop_result_error [OF lt t'])
      have "fatal_last evs1 (err_of res)"
        using ok1 by (simp add: fatal_last_None fatal_last_no_failure)
      moreover have "budget_outcome s evs1 res"
        using res calls1 lt sh2 Inl by (auto simp: budget_outcome_def)
      ultimately show ?thesis using evs1(1) l noin1 by (intro exI [of _ evs1]) simp
    next
      case (Inr s2)
      have pr': "processStepResult e s1 sr (w1, log1) = (Inr s2, (w2, log1))"
        using pr Inr sh2 by simp
      have fr2: "config s2 = config s" "stepCounter s2 = stepCounter s"
        using sh2 Inr fr1 by simp_all
      show ?thesis
      proof (cases "finalOutput s2 = []")
        case False
        have en: "runAgentExecutionLoop_end e s2 (w2, log1) = (res, (w', log'))"
          using Suc.prems by (simp add: loop_final [OF lt t' pr' False])
        note sh3 = runAgentExecutionLoop_end_shape [OF en]
        have "fatal_last evs1 (err_of res)"
          using ok1 by (simp add: fatal_last_None fatal_last_no_failure)
        moreover have "finalOutput s = [] \<longrightarrow> (\<forall>ev\<in>set evs1. requests_tools ev) \<longrightarrow> False"
        proof (intro impI)
          assume a: "finalOutput s = []" "\<forall>ev\<in>set evs1. requests_tools ev"
          have "sr_finalOutput sr = []" using evs1(4) \<open>r1 = Inr p\<close> p a(2) by simp
          then have "finalOutput s2 = finalOutput s1" using sh2 Inr by simp
          moreover have "finalOutput s1 = finalOutput s"
            using runSingleTurn_frame [OF t'] by simp
          ultimately show False using a(1) False by simp
        qed
        ultimately show ?thesis using evs1(1) sh3 noin1 by (intro exI [of _ evs1]) auto
      next
        case True
        let ?s3 = "s2\<lparr>stepCounter := stepCounter s2 + 1\<rparr>"
        have rec: "runAgentExecutionLoop e ?s3 (w2, log1) = (res, (w', log'))"
          using Suc.prems by (simp add: loop_continue [OF lt t' pr' True])
        have m: "n = nat (MaxTurns (config ?s3) - stepCounter ?s3)"
          using Suc.hyps(2) fr2 by simp
        from Suc.hyps(1) [OF m rec] obtain evs2 where evs2:
          "log' = log1 @ evs2" "fatal_last evs2 (err_of res)"
          "\<forall>ev\<in>set evs2. \<not> is_input_guardrail ev"
          "finalOutput ?s3 = [] \<longrightarrow> stepCounter ?s3 \<le> MaxTurns (config ?s3) \<longrightarrow>
             (\<forall>ev\<in>set evs2. requests_tools ev) \<longrightarrow> budget_outcome ?s3 evs2 res"
          by blast
        have fl: "fatal_last (evs1 @ evs2) (err_of res)"
          using ok1 evs2(2) by (rule fatal_last_append)
        have bo: "(\<forall>ev\<in>set (evs1 @ evs2). requests_tools ev) \<longrightarrow> budget_outcome s (evs1 @ evs2) res"
        proof
          assume "\<forall>ev\<in>set (evs1 @ evs2). requests_tools ev"
          then have "budget_outcome ?s3 evs2 res"
            using evs2(4) True lt fr2 by simp
          then show "budget_outcome s (evs1 @ evs2) res"
            using calls1 ne1 fr2 by (auto simp: budget_outcome_def)
        qed
        show ?thesis
        proof (intro exI [of _ "evs1 @ evs2"] conjI)
          show "log' = log @ evs1 @ evs2" using evs1(1) evs2(1) by simp
          show "fatal_last (evs1 @ evs2) (err_of res)" by (rule fl)
          show "\<forall>ev\<in>set (evs1 @ evs2). \<not> is_input_guardrail ev" using noin1 evs2(3) by auto
          show "finalOutput s = [] \<longrightarrow> stepCounter s \<le> MaxTurns (config s) \<longrightarrow>
                (\<forall>ev\<in>set (evs1 @ evs2). requests_tools ev) \<longrightarrow> budget_outcome s (evs1 @ evs2) res"
            using bo by blast
        qed
      qed
    qed
  qed
qed

lemma result_Inr: "\<not> isl (fst X) \<Longrightarrow> X = (Inr (projr (fst X)), snd X)"
  by (cases X) (auto simp: isl_def)

lemma result_Inr_pair:
  "\<not> isl (fst X) \<Longrightarrow> X = (Inr (fst (projr (fst X)), snd (projr (fst X))), snd X)"
  by (cases X) (auto simp: isl_def)

lemma errors_Is_trans: "errors_Is a b \<Longrightarrow> errors_Is b c \<Longrightarrow> errors_Is a c"
  by (induction a) (auto split: error.splits)

lemma errors_Is_linear: "errors_Is a b \<Longrightarrow> errors_Is a c \<Longrightarrow> errors_Is b c \<or> errors_Is c b"
  by (induction a) auto

lemma applyInputGuardrails_shape:
  assumes "applyInputGuardrails e s (w, log) = (r, (w', log'))"
  shows "\<exists>evs. log' = log @ evs \<and> length evs \<le> length (InputGuardrails (heap e (agent s))) \<and>
       (\<forall>j<length evs. \<exists>x. evs ! j = EvInputGuardrail j (originalInput s) x) \<and>
       (\<forall>j. Suc j < length evs \<longrightarrow> event_failure (evs ! j) = None) \<and>
       (r = None \<longrightarrow> length evs = length (InputGuardrails (heap e (agent s))) \<and>
          (\<forall>ev\<in>set evs. event_failure ev = None)) \<and>
       (\<forall>err. r = Some err \<longrightarrow> evs \<noteq> [] \<and> event_failure (last evs) = Some err)"
proof (cases "length (InputGuardrails (heap e (agent s))) = 0")
  case True
  then have "r = None" "log' = log" using assms by (simp_all add: applyInputGuardrails_def)
  then show ?thesis using True by (intro exI [of _ "[]"]) simp
next
  case False
  then have "applyInputGuardrails_loop 0 (InputGuardrails (heap e (agent s))) (originalInput s)
      (w, log) = (r, (w', log'))"
    using assms by (simp add: applyInputGuardrails_def)
  from applyInputGuardrails_loop_shape [OF this] show ?thesis by simp
qed

lemma RunWithConfig_trace:
  fixes e :: "('w, 'v) env" and res :: "error + 'v Result"
  assumes "RunWithConfig e a input cfg (w, log) = (res, (w', log'))"
  shows "\<exists>gevs tevs. log' = log @ gevs @ tevs \<and>
       length gevs \<le> length (InputGuardrails (heap e a)) \<and>
       (\<forall>j<length gevs. \<exists>x. gevs ! j = EvInputGuardrail j input x) \<and>
       (\<forall>j. Suc j < length gevs \<longrightarrow> event_failure (gevs ! j) = None) \<and>
       (\<forall>err. gevs \<noteq> [] \<and> event_failure (last gevs) = Some err \<longrightarrow> tevs = [] \<and> res = Inl err) \<and>
       (tevs \<noteq> [] \<longrightarrow> length gevs = length (InputGuardrails (heap e a))) \<and>
       (\<forall>ev\<in>set tevs. \<not> is_input_guardrail ev) \<and>
       (\<forall>i<length tevs. \<forall>x. event_failure (tevs ! i) = Some x \<longrightarrow>
          Suc i = length tevs \<and> (\<exists>err. res = Inl err \<and> propagated err x))"
    (is "\<exists>gevs tevs. ?P gevs tevs")
proof (cases "validateInputsAndSetup (heap e a) cfg")
  case (Inl err)
  then have "log' = log" using assms by (simp add: RunWithConfig_def)
  then have "?P [] []" by simp
  then show ?thesis by blast
next
  case (Inr cfg1)
  let ?s = "\<lparr>agent = a, currentAgent = a, originalInput = input, config = cfg1,
             messages = prepareMessages (heap e a) input, resultMessages = [],
             usage = zero_Usage, stepCounter = 0, finalOutput = [],
             structuredOutput = None :: 'v option\<rparr>"
  obtain r1 w1 log1 where g: "applyInputGuardrails e ?s (w, log) = (r1, (w1, log1))"
    by (metis surj_pair)
  from applyInputGuardrails_shape [OF g] obtain gevs where gevs:
    "log1 = log @ gevs" "length gevs \<le> length (InputGuardrails (heap e a))"
    "\<forall>j<length gevs. \<exists>x. gevs ! j = EvInputGuardrail j input x"
    "\<forall>j. Suc j < length gevs \<longrightarrow> event_failure (gevs ! j) = None"
    "r1 = None \<longrightarrow> length gevs = length (InputGuardrails (heap e a)) \<and>
          (\<forall>ev\<in>set gevs. event_failure ev = None)"
    "\<forall>err. r1 = Some err \<longrightarrow> gevs \<noteq> [] \<and> event_failure (last gevs) = Some err"
    by auto
  show ?thesis
  proof (cases r1)
    case (Some err)
    then have "res = Inl err" "log' = log1"
      using assms Inr g by (simp_all add: RunWithConfig_def Let_def)
    then have "?P gevs []" using gevs Some by simp
    then show ?thesis by blast
  next
    case None
    have allok: "\<forall>ev\<in>set gevs. event_failure ev = None" and
      full: "length gevs = length (InputGuardrails (heap e a))"
      using gevs(5) None by simp_all
    have nolast: "\<forall>err. \<not> (gevs \<noteq> [] \<and> event_failure (last gevs) = Some err)"
      using allok by (metis last_in_set option.distinct(1))
    show ?thesis
    proof (cases "Hooks (heap e a)")
      case nh: None
      then have "log' = log1" using assms Inr g \<open>r1 = None\<close>
        by (simp add: RunWithConfig_def Let_def)
      then have "?P gevs []" using gevs(1-4) nolast by auto
      then show ?thesis by blast
    next
      case (Some hk)
      obtain r2 w2 log2 where h: "lift_io (OnStart hk a) (w1, log1) = (r2, (w2, log2))"
        by (metis surj_pair)
      have l2: "log2 = log1" using lift_io_log [OF h] .
      show ?thesis
      proof (cases r2)
        case (Some err)
        then have "log' = log1" using assms Inr g \<open>r1 = None\<close> \<open>Hooks (heap e a) = Some hk\<close> h l2
          by (simp add: RunWithConfig_def Let_def)
        then have "?P gevs []" using gevs(1-4) nolast by auto
        then show ?thesis by blast
      next
        case n2: None
        let ?s1 = "if input \<noteq> [] then ?s\<lparr>resultMessages := [mk_Message ''user'' input]\<rparr> else ?s"
        obtain r3 w3 log3 where lp: "runAgentExecutionLoop e ?s1 (w2, log1) = (r3, (w3, log3))"
          by (metis surj_pair)
        from loop_trace [OF lp] obtain tevs where tevs:
          "log3 = log1 @ tevs" "fatal_last tevs (err_of r3)"
          "\<forall>ev\<in>set tevs. \<not> is_input_guardrail ev"
          by blast
        have run: "RunWithConfig e a input cfg (w, log) =
            (case r3 of
               Inl err \<Rightarrow>
                 if errors_Is err ErrMaxTurnsExceeded then (Inl ErrMaxTurnsExceeded, (w3, log3))
                 else (Inl (Wrap ''agent execution error: '' err []), (w3, log3))
             | Inr result \<Rightarrow> (Inr result, (w3, log3)))"
          using Inr g \<open>r1 = None\<close> \<open>Hooks (heap e a) = Some hk\<close> h l2 n2 lp
          by (simp add: RunWithConfig_def Let_def split: sum.splits)
        have l': "log' = log3" using assms unfolding run by (auto split: sum.splits if_splits)
        have prp: "\<forall>i<length tevs. \<forall>x. event_failure (tevs ! i) = Some x \<longrightarrow>
          Suc i = length tevs \<and> (\<exists>err. res = Inl err \<and> propagated err x)"
        proof (intro allI impI)
          fix i x
          assume i: "i < length tevs" and x: "event_failure (tevs ! i) = Some x"
          from tevs(2) i x obtain err0 where
            lst: "Suc i = length tevs" and r3: "r3 = Inl err0" and isx: "errors_Is err0 x"
            by (cases r3) (auto simp: fatal_last_def)
          have "\<exists>err. res = Inl err \<and> propagated err x"
          proof (cases "errors_Is err0 ErrMaxTurnsExceeded")
            case False
            then have "res = Inl (Wrap ''agent execution error: '' err0 [])"
              using assms r3 unfolding run by simp
            then show ?thesis using isx by (simp add: propagated_def)
          next
            case True
            then have res: "res = Inl ErrMaxTurnsExceeded"
              using assms r3 unfolding run by simp
            show ?thesis
            proof (cases "errors_Is x ErrMaxTurnsExceeded")
              case True
              then show ?thesis using res by (simp add: propagated_def)
            next
              case False
              then show ?thesis using errors_Is_linear [OF isx \<open>errors_Is err0 ErrMaxTurnsExceeded\<close>]
                by auto
            qed
          qed
          with lst show "Suc i = length tevs \<and> (\<exists>err. res = Inl err \<and> propagated err x)" by simp
        qed
        have "?P gevs tevs"
          using gevs(1-4) nolast full tevs(1,3) l' prp by auto
        then show ?thesis by blast
      qed
    qed
  qed
qed

lemma model_calls_input_guardrails:
  "\<forall>j<length evs. \<exists>x. evs ! j = EvInputGuardrail j input x \<Longrightarrow> model_calls evs = 0"
proof -
  assume a: "\<forall>j<length evs. \<exists>x. evs ! j = EvInputGuardrail j input x"
  have "\<forall>ev\<in>set evs. \<not> is_model_call ev"
  proof
    fix ev assume "ev \<in> set evs"
    then obtain j where "j < length evs" "evs ! j = ev" by (auto simp: in_set_conv_nth)
    with a show "\<not> is_model_call ev" by fastforce
  qed
  then show ?thesis by (simp add: model_calls_def)
qed

lemma applyOutputGuardrails_loop_append:
  "applyOutputGuardrails_loop i (gs1 @ gs2) out wl =
     (case applyOutputGuardrails_loop i gs1 out wl of
        (Inl err, wl1) \<Rightarrow> (Inl err, wl1)
      | (Inr out1, wl1) \<Rightarrow> applyOutputGuardrails_loop (i + length gs1) gs2 out1 wl1)"
proof (induction gs1 arbitrary: i out wl)
  case Nil
  then show ?case by simp
next
  case (Cons g gs1)
  obtain w log where wl: "wl = (w, log)" by (cases wl)
  obtain x w1 where c: "og_Check g out w = (x, w1)" by (cases "og_Check g out w")
  show ?case
  proof (cases x)
    case (Inl err)
    then show ?thesis using wl c by simp
  next
    case (Inr result)
    then show ?thesis using wl c Cons.IH by (simp cong: prod.case_cong sum.case_cong)
  qed
qed

lemma applyOutputGuardrails_loop_nonempty:
  "applyOutputGuardrails_loop i gs out wl = (Inr checked, wl1) \<Longrightarrow> out \<noteq> [] \<Longrightarrow> checked \<noteq> []"
proof (induction gs arbitrary: i out wl)
  case Nil
  then show ?case by simp
next
  case (Cons g gs)
  obtain w log where wl: "wl = (w, log)" by (cases wl)
  obtain x w1 where c: "og_Check g out w = (x, w1)" by (cases "og_Check g out w")
  show ?case
  proof (cases x)
    case (Inl err)
    then show ?thesis using Cons.prems wl c by simp
  next
    case (Inr result)
    let ?out1 = "if ModifiedOutput result \<noteq> [] then ModifiedOutput result else out"
    have "applyOutputGuardrails_loop (Suc i) gs ?out1
            (w1, log @ [EvOutputGuardrail i out x]) = (Inr checked, wl1)"
      using Cons.prems(1) wl c Inr by (simp split: if_splits)
    moreover have "?out1 \<noteq> []" using Cons.prems(2) by simp
    ultimately show ?thesis by (rule Cons.IH)
  qed
qed

lemma check_output_nonempty:
  "check_output a out wl = (Inr checked, wl1) \<Longrightarrow> out \<noteq> [] \<Longrightarrow> checked \<noteq> []"
  by (auto simp: check_output_def applyOutputGuardrails_def split: if_splits
      dest: applyOutputGuardrails_loop_nonempty)

lemma final_turn_log:
  assumes "final_turn e s msgs response (w, log) = (r, (w', log'))"
  shows "\<exists>evs. log' = log @ evs"
proof (cases "parse_structured_output (heap e (currentAgent s)) (Content (resp_Message response))")
  case (Inl err)
  then show ?thesis using assms by (simp add: final_turn_def)
next
  case (Inr structured)
  obtain y w2 log2 where g: "check_output (heap e (currentAgent s))
      (Content (resp_Message response)) (w, log) = (y, (w2, log2))"
    by (metis surj_pair)
  from check_output_shape [OF g] obtain evs where "log2 = log @ evs" by blast
  moreover have "log' = log2" using assms Inr g by (auto simp: final_turn_def split: sum.splits)
  ultimately show ?thesis by simp
qed

lemma processAgentStep_final_event:
  fixes e :: "('w, 'v) env" and r :: "error + 'v stepResult \<times> ('w, 'v) executionState"
  assumes "processAgentStep e s (w, log) = (r, (w1, log1))"
    and "log1 = log @ EvModelCall msgs (Inr response) # evs"
    and "ToolCalls (resp_Message response) = []"
  shows "msgs = messages s \<and>
         (\<exists>w2. (r, (w1, log1)) =
            final_turn e s msgs response (w2, log @ [EvModelCall msgs (Inr response)]))"
proof (cases "ModelProvider (config s)")
  case None
  then show ?thesis using assms by (simp add: processAgentStep_None)
next
  case (Some provider)
  obtain x w2 where c: "provider (messages s) (turn_settings e s) w = (x, w2)"
    by (cases "provider (messages s) (turn_settings e s) w")
  show ?thesis
  proof (cases x)
    case (Inl err)
    then show ?thesis
      using assms processAgentStep_error [OF Some, of e w err w2 log] c by auto
  next
    case (Inr response')
    have c': "provider (messages s) (turn_settings e s) w = (Inr response', w2)"
      using c Inr by simp
    let ?ev = "EvModelCall (messages s) (Inr response')"
    show ?thesis
    proof (cases "ToolCalls (resp_Message response') \<noteq> []")
      case True
      obtain y w3 log3 where t:
        "processToolCallsAndHandoffs e (currentAgent s) (resp_Message response') (w2, log @ [?ev])
           = (y :: error + 'v stepResult, (w3, log3))"
        by (metis surj_pair)
      from processToolCallsAndHandoffs_shape [OF t] obtain evs' where
        "log3 = (log @ [?ev]) @ evs'" by blast
      moreover have "log1 = log3"
        using assms(1) t unfolding processAgentStep_tools [OF Some c' True]
        by (auto split: sum.splits)
      ultimately have "response' = response" using assms(2) by simp
      then show ?thesis using True assms(3) by simp
    next
      case False
      then have nt: "ToolCalls (resp_Message response') = []" by simp
      note unf = processAgentStep_final [OF Some c' nt, of log]
      have ft: "(r, (w1, log1)) = final_turn e s (messages s) response' (w2, log @ [?ev])"
        using assms(1) unfolding unf final_turn_def by (simp cong: prod.case_cong sum.case_cong)
      from final_turn_log [OF ft [symmetric]] obtain evs' where "log1 = (log @ [?ev]) @ evs'"
        by blast
      then have "msgs = messages s" "response' = response" using assms(2) by simp_all
      then show ?thesis using ft by auto
    qed
  qed
qed

lemma runSingleTurn_final_event:
  fixes e :: "('w, 'v) env" and r :: "error + 'v stepResult \<times> ('w, 'v) executionState"
  assumes "runSingleTurn e s (w, log) = (r, (w1, log1))"
    and "log1 = log @ EvModelCall msgs (Inr response) # evs"
    and "ToolCalls (resp_Message response) = []"
  shows "\<exists>w2. (r, (w1, log1)) =
            final_turn e s msgs response (w2, log @ [EvModelCall msgs (Inr response)])"
proof -
  obtain x w0 log0 where g:
    "lift_io (GetSystemPrompt (heap e (currentAgent s))) (w, log) = (x, (w0, log0))"
    by (metis surj_pair)
  have l: "log0 = log" using lift_io_log [OF g] .
  show ?thesis
  proof (cases x)
    case (Inl err)
    then show ?thesis using assms g l by (auto simp: runSingleTurn_def)
  next
    case (Inr instructions)
    let ?s = "s\<lparr>messages := set_system_content (messages s) instructions\<rparr>"
    have "processAgentStep e ?s (w0, log) = (r, (w1, log1))"
      using assms(1) g l Inr by (simp add: runSingleTurn_def)
    from processAgentStep_final_event [OF this assms(2,3)] obtain w2 where
      ft: "(r, (w1, log1)) =
             final_turn e ?s msgs response (w2, log @ [EvModelCall msgs (Inr response)])"
      by blast
    have "final_turn e ?s msgs response wl = final_turn e s msgs response wl" for wl
      by (simp add: final_turn_def usage_added_def cong: prod.case_cong sum.case_cong)
    with ft show ?thesis by metis
  qed
qed

lemma loop_final_output:
  assumes "stepCounter s < MaxTurns (config s)"
    and "runSingleTurn e s wl = (Inr (sr, s1), wl1)"
    and "nextAgent sr = None" and "sr_finalOutput sr \<noteq> []"
  shows "runAgentExecutionLoop e s wl =
           runAgentExecutionLoop_end e
             (s1\<lparr>messages := messages s1 @ sr_messages sr,
                 resultMessages := resultMessages s1 @ sr_messages sr,
                 finalOutput := sr_finalOutput sr,
                 structuredOutput := sr_structuredOutput sr\<rparr>) wl1"
proof -
  let ?s2 = "s1\<lparr>messages := messages s1 @ sr_messages sr,
                 resultMessages := resultMessages s1 @ sr_messages sr,
                 finalOutput := sr_finalOutput sr,
                 structuredOutput := sr_structuredOutput sr\<rparr>"
  have p: "processStepResult e s1 sr wl1 = (Inr ?s2, wl1)"
    using assms(3,4) by (simp add: processStepResult_def Let_def)
  have "finalOutput ?s2 \<noteq> []" using assms(4) by simp
  from loop_final [OF assms(1,2) p this] show ?thesis .
qed

lemma loop_empty_output:
  assumes "stepCounter s < MaxTurns (config s)" and "finalOutput s = []"
    and "runSingleTurn e s wl = (Inr (sr, s1), wl1)"
    and "nextAgent sr = None" and "sr_finalOutput sr = []"
  shows "runAgentExecutionLoop e s wl =
           runAgentExecutionLoop e
             (s1\<lparr>messages := messages s1 @ sr_messages sr,
                 resultMessages := resultMessages s1 @ sr_messages sr,
                 stepCounter := stepCounter s + 1\<rparr>) wl1"
proof -
  let ?s2 = "s1\<lparr>messages := messages s1 @ sr_messages sr,
                 resultMessages := resultMessages s1 @ sr_messages sr\<rparr>"
  have p: "processStepResult e s1 sr wl1 = (Inr ?s2, wl1)"
    using assms(4,5) by (simp add: processStepResult_def Let_def)
  have fr: "finalOutput s1 = finalOutput s" "stepCounter s1 = stepCounter s"
    using runSingleTurn_frame [OF assms(3)] by simp_all
  have "finalOutput ?s2 = []" using fr assms(2) by simp
  from loop_continue [OF assms(1,3) p this] show ?thesis using fr by simp
qed

lemma runAgentExecutionLoop_end_result:
  assumes "runAgentExecutionLoop_end e s (w, log) = (res, (w', log'))"
    and "finalOutput s \<noteq> []"
  shows "log' = log \<and>
     (\<forall>result. res = Inr result \<longrightarrow>
        result = \<lparr>FinalOutput = finalOutput s, StructuredOutput = structuredOutput s,
                  LastAgent = currentAgent s,
                  History = convertModelMessages (resultMessages s), res_Usage = usage s\<rparr>) \<and>
     (\<forall>err. res = Inl err \<longrightarrow>
        err = nil_deref \<or> (\<exists>err0. err = Wrap ''error in OnEnd hook: '' err0 []))"
  using assms
  by (auto simp: runAgentExecutionLoop_end_def split: option.splits prod.splits)

lemma final_turn_cases:
  fixes e :: "('w, 'v) env" and r :: "error + 'v stepResult \<times> ('w, 'v) executionState"
  assumes "(r, wl1) = final_turn e s msgs response wl"
  shows "(\<exists>err. parse_structured_output (heap e (currentAgent s))
                   (Content (resp_Message response)) = Inl err \<and> r = Inl err \<and> wl1 = wl) \<or>
         (\<exists>structured g. parse_structured_output (heap e (currentAgent s))
                   (Content (resp_Message response)) = Inr structured \<and>
            check_output (heap e (currentAgent s)) (Content (resp_Message response)) wl = (g, wl1) \<and>
            (case g of
               Inl err \<Rightarrow> r = Inl err
             | Inr checkedOutput \<Rightarrow>
                 r = Inr (final_stepResult checkedOutput structured response,
                          usage_added (s\<lparr>messages := msgs\<rparr>) response)))"
proof (cases "parse_structured_output (heap e (currentAgent s)) (Content (resp_Message response))")
  case (Inl err)
  then show ?thesis using assms by (simp add: final_turn_def)
next
  case (Inr structured)
  obtain g wl2 where g: "check_output (heap e (currentAgent s))
      (Content (resp_Message response)) wl = (g, wl2)"
    by (metis surj_pair)
  then show ?thesis using assms Inr by (cases g) (auto simp: final_turn_def)
qed

lemma isl_projr: "\<not> isl x \<Longrightarrow> x = Inr (projr x)"
  by (cases x) auto

lemma run_fatal_event:
  fixes e :: "('w, 'v) env" and res :: "error + 'v Result"
  assumes "RunWithConfig e a input cfg (w, []) = (res, (w', log))"
    and "ev \<in> set log" and "event_failure ev = Some x" and "\<not> is_input_guardrail ev"
  shows "last log = ev \<and> (\<exists>err. res = Inl err \<and> propagated err x)"
proof -
  from RunWithConfig_trace [OF assms(1)] obtain gevs tevs where
    l: "log = gevs @ tevs"
    and sh: "\<forall>j<length gevs. \<exists>x. gevs ! j = EvInputGuardrail j input x"
    and fl: "\<forall>i<length tevs. \<forall>x. event_failure (tevs ! i) = Some x \<longrightarrow>
          Suc i = length tevs \<and> (\<exists>err. res = Inl err \<and> propagated err x)"
    by auto
  have "ev \<notin> set gevs"
  proof
    assume "ev \<in> set gevs"
    then obtain j where "j < length gevs" "gevs ! j = ev" by (auto simp: in_set_conv_nth)
    with sh have "is_input_guardrail ev" by fastforce
    with assms(4) show False by simp
  qed
  then have "ev \<in> set tevs" using assms(2) l by simp
  then obtain i where i: "i < length tevs" "tevs ! i = ev" by (auto simp: in_set_conv_nth)
  with fl assms(3) have s: "Suc i = length tevs" and p: "\<exists>err. res = Inl err \<and> propagated err x"
    by auto
  have ne: "tevs \<noteq> []" using i(1) by auto
  have "last tevs = tevs ! (length tevs - 1)" using ne by (rule last_conv_nth)
  then have "last tevs = ev" using s i(2) by (metis diff_Suc_1)
  then have "last log = ev" using l ne by simp
  with p show ?thesis by simp
qed

lemma propagated_tripwire:
  "propagated err (Wrap [] ErrGuardrailTripwire m) \<Longrightarrow>
     errors_Is err (Wrap [] ErrGuardrailTripwire m) \<and> errors_Is err ErrGuardrailTripwire"
  by (auto simp: propagated_def intro: errors_Is_trans)





lemma processAgentStep_tools_event:
  fixes e :: "('w, 'v) env" and r :: "error + 'v stepResult \<times> ('w, 'v) executionState"
  assumes "processAgentStep e s (w, log) = (r, (w1, log1))"
    and "log1 = log @ EvModelCall msgs (Inr response) # evs"
    and "ToolCalls (resp_Message response) \<noteq> []"
  shows "msgs = messages s \<and>
         (\<exists>w2. (r, (w1, log1)) =
            (case processToolCallsAndHandoffs e (currentAgent s) (resp_Message response)
                    (w2, log @ [EvModelCall msgs (Inr response)]) of
               (Inl err, wl2) \<Rightarrow> (Inl err, wl2)
             | (Inr sr, wl2) \<Rightarrow> (Inr (sr, usage_added s response), wl2)))"
proof (cases "ModelProvider (config s)")
  case None
  then show ?thesis using assms by (simp add: processAgentStep_None)
next
  case (Some provider)
  obtain x w2 where c: "provider (messages s) (turn_settings e s) w = (x, w2)"
    by (cases "provider (messages s) (turn_settings e s) w")
  show ?thesis
  proof (cases x)
    case (Inl err)
    then show ?thesis
      using assms processAgentStep_error [OF Some, of e w err w2 log] c by auto
  next
    case (Inr response')
    have c': "provider (messages s) (turn_settings e s) w = (Inr response', w2)"
      using c Inr by simp
    let ?ev = "EvModelCall (messages s) (Inr response')"
    show ?thesis
    proof (cases "ToolCalls (resp_Message response') \<noteq> []")
      case True
      note unf = processAgentStep_tools [OF Some c' True, of log]
      obtain y w3 log3 where t:
        "processToolCallsAndHandoffs e (currentAgent s) (resp_Message response') (w2, log @ [?ev])
           = (y :: error + 'v stepResult, (w3, log3))"
        by (metis surj_pair)
      from processToolCallsAndHandoffs_shape [OF t] obtain evs' where
        "log3 = (log @ [?ev]) @ evs'" by blast
      moreover have "log1 = log3"
        using assms(1) t unfolding unf by (auto split: sum.splits)
      ultimately have eq: "msgs = messages s" "response' = response" using assms(2) by simp_all
      have "(r, (w1, log1)) =
            (case processToolCallsAndHandoffs e (currentAgent s) (resp_Message response')
                    (w2, log @ [?ev]) of
               (Inl err, wl2) \<Rightarrow> (Inl err, wl2)
             | (Inr sr, wl2) \<Rightarrow> (Inr (sr, usage_added s response'), wl2))"
        using assms(1) unfolding unf by simp
      then show ?thesis using eq by auto
    next
      case False
      then have nt: "ToolCalls (resp_Message response') = []" by simp
      note unf = processAgentStep_final [OF Some c' nt, of log]
      have ft: "(r, (w1, log1)) = final_turn e s (messages s) response' (w2, log @ [?ev])"
        using assms(1) unfolding unf final_turn_def by (simp cong: prod.case_cong sum.case_cong)
      from final_turn_log [OF ft [symmetric]] obtain evs' where "log1 = (log @ [?ev]) @ evs'"
        by blast
      then have "response' = response" using assms(2) by simp
      then show ?thesis using nt assms(3) by simp
    qed
  qed
qed

lemma runSingleTurn_tools_event:
  fixes e :: "('w, 'v) env" and r :: "error + 'v stepResult \<times> ('w, 'v) executionState"
  assumes "runSingleTurn e s (w, log) = (r, (w1, log1))"
    and "log1 = log @ EvModelCall msgs (Inr response) # evs"
    and "ToolCalls (resp_Message response) \<noteq> []"
  shows "\<exists>w2. (r, (w1, log1)) =
            (case processToolCallsAndHandoffs e (currentAgent s) (resp_Message response)
                    (w2, log @ [EvModelCall msgs (Inr response)]) of
               (Inl err, wl2) \<Rightarrow> (Inl err, wl2)
             | (Inr sr, wl2) \<Rightarrow> (Inr (sr, usage_added (s\<lparr>messages := msgs\<rparr>) response), wl2))"
proof -
  obtain x w0 log0 where g:
    "lift_io (GetSystemPrompt (heap e (currentAgent s))) (w, log) = (x, (w0, log0))"
    by (metis surj_pair)
  have l: "log0 = log" using lift_io_log [OF g] .
  show ?thesis
  proof (cases x)
    case (Inl err)
    then show ?thesis using assms g l by (auto simp: runSingleTurn_def)
  next
    case (Inr instructions)
    let ?s = "s\<lparr>messages := set_system_content (messages s) instructions\<rparr>"
    have "processAgentStep e ?s (w0, log) = (r, (w1, log1))"
      using assms(1) g l Inr by (simp add: runSingleTurn_def)
    from processAgentStep_tools_event [OF this assms(2,3)] obtain w2 where
      m: "msgs = messages ?s"
      and ft: "(r, (w1, log1)) =
            (case processToolCallsAndHandoffs e (currentAgent ?s) (resp_Message response)
                    (w2, log @ [EvModelCall msgs (Inr response)]) of
               (Inl err, wl2) \<Rightarrow> (Inl err, wl2)
             | (Inr sr, wl2) \<Rightarrow> (Inr (sr, usage_added ?s response), wl2))"
      by blast
    have ca: "currentAgent ?s = currentAgent s" by simp
    have eq: "?s = s\<lparr>messages := msgs\<rparr>" using m by simp
    from ft [unfolded eq] show ?thesis by (intro exI [of _ w2]) simp
  qed
qed

lemma scanHandoffs_declined:
  fixes sr :: "'v stepResult"
  shows "scanHandoffs unm message tc hs (w, log) =
       (Inr None :: error + 'v stepResult option, (w', log')) \<Longrightarrow>
     \<forall>h\<in>set hs. ToolName h = fn_Name (Function tc) \<longrightarrow>
        (\<exists>wa wb. ShouldHandoff h (fn_Arguments (Function tc)) wa = (Inr False, wb))"
proof (induction hs arbitrary: w)
  case Nil
  show ?case by simp
next
  case (Cons h hs)
  show ?case
  proof (cases "ToolName h = fn_Name (Function tc)")
    case False
    then have "scanHandoffs unm message tc hs (w, log) =
        (Inr None :: error + 'v stepResult option, (w', log'))"
      using Cons.prems by simp
    from Cons.IH [OF this] False show ?thesis by simp
  next
    case True
    obtain x w1 where d: "ShouldHandoff h (fn_Arguments (Function tc)) w = (x, w1)"
      by (cases "ShouldHandoff h (fn_Arguments (Function tc)) w")
    show ?thesis
    proof (cases x)
      case (Inl err)
      then show ?thesis using Cons.prems True d by simp
    next
      case (Inr shouldHandoff)
      show ?thesis
      proof (cases shouldHandoff)
        case True
        then show ?thesis
          using Cons.prems \<open>ToolName h = fn_Name (Function tc)\<close> d Inr
          by (simp split: sum.splits target.splits)
      next
        case False
        then have "scanHandoffs unm message tc hs (w1, log) =
            (Inr None :: error + 'v stepResult option, (w', log'))"
          using Cons.prems \<open>ToolName h = fn_Name (Function tc)\<close> d Inr by simp
        from Cons.IH [OF this] d Inr False show ?thesis by auto
      qed
    qed
  qed
qed

lemma scanHandoffs_taken:
  fixes sr :: "'v stepResult"
  shows "scanHandoffs unm message tc hs (w, log) = (Inr (Some sr), (w', log')) \<Longrightarrow>
     \<exists>hpre h hpost. hs = hpre @ h # hpost \<and> ToolName h = fn_Name (Function tc) \<and>
        (\<exists>wa. ShouldHandoff h (fn_Arguments (Function tc)) wa = (Inr True, w')) \<and>
        TargetAgent h \<noteq> NotAnAgent \<and>
        sr = handoff_stepResult (case TargetAgent h of AgentPtr q \<Rightarrow> Some q | _ \<Rightarrow> None)
               message (fn_Arguments (Function tc)) \<and>
        (\<forall>h'\<in>set hpre. ToolName h' = fn_Name (Function tc) \<longrightarrow>
           (\<exists>wa wb. ShouldHandoff h' (fn_Arguments (Function tc)) wa = (Inr False, wb)))"
proof (induction hs arbitrary: w)
  case Nil
  then show ?case by simp
next
  case (Cons h hs)
  let ?args = "fn_Arguments (Function tc)"
  let ?declines = "\<lambda>h'. ToolName h' = fn_Name (Function tc) \<longrightarrow>
           (\<exists>wa wb. ShouldHandoff h' ?args wa = (Inr False, wb))"
  have ext: ?case
    if rec: "scanHandoffs unm message tc hs (w0, log) = (Inr (Some sr), (w', log'))"
      and dec: "?declines h" for w0
  proof -
    from Cons.IH [OF rec] obtain hpre h' hpost where
      1: "hs = hpre @ h' # hpost" and 2: "ToolName h' = fn_Name (Function tc)"
      and 3: "\<exists>wa. ShouldHandoff h' ?args wa = (Inr True, w')"
      and 4: "TargetAgent h' \<noteq> NotAnAgent"
      and 5: "sr = handoff_stepResult (case TargetAgent h' of AgentPtr q \<Rightarrow> Some q | _ \<Rightarrow> None)
               message ?args"
      and 6: "\<forall>x\<in>set hpre. ?declines x"
      by blast
    show ?thesis
    proof (rule exI [of _ "h # hpre"], rule exI [of _ h'], rule exI [of _ hpost], intro conjI)
      show "h # hs = (h # hpre) @ h' # hpost" using 1 by simp
      show "ToolName h' = fn_Name (Function tc)" by (rule 2)
      show "\<exists>wa. ShouldHandoff h' ?args wa = (Inr True, w')" by (rule 3)
      show "TargetAgent h' \<noteq> NotAnAgent" by (rule 4)
      show "sr = handoff_stepResult (case TargetAgent h' of AgentPtr q \<Rightarrow> Some q | _ \<Rightarrow> None)
               message ?args" by (rule 5)
      show "\<forall>x\<in>set (h # hpre). ?declines x" using 6 dec by simp
    qed
  qed
  show ?case
  proof (cases "ToolName h = fn_Name (Function tc)")
    case False
    then have "scanHandoffs unm message tc hs (w, log) = (Inr (Some sr), (w', log'))"
      using Cons.prems by simp
    from ext [OF this] False show ?thesis by simp
  next
    case True
    obtain x w1 where d: "ShouldHandoff h ?args w = (x, w1)"
      by (cases "ShouldHandoff h ?args w")
    show ?thesis
    proof (cases x)
      case (Inl err)
      then show ?thesis using Cons.prems True d by simp
    next
      case (Inr shouldHandoff)
      show ?thesis
      proof (cases shouldHandoff)
        case False
        then have rec: "scanHandoffs unm message tc hs (w1, log) = (Inr (Some sr), (w', log'))"
          using Cons.prems True d Inr by simp
        have "ShouldHandoff h ?args w = (Inr False, w1)" using d Inr False by simp
        then have "?declines h" by blast
        from ext [OF rec this] show ?thesis .
      next
        case yes: True
        have d': "ShouldHandoff h ?args w = (Inr True, w1)" using d Inr yes by simp
        let ?v = "if length (InputJSONSchema h) > 0
                     then ValidateJSON unm ?args (InputJSONSchema h) else Inr []"
        have unf: "scanHandoffs unm message tc (h # hs) (w, log) =
          (case ?v of
                 Inl err \<Rightarrow>
                   (Inl (Wrap [] ErrInvalidHandoffInput ('': '' @ Error err)), (w1, log))
               | Inr _ \<Rightarrow>
                  (case TargetAgent h of
                     NotAnAgent \<Rightarrow>
                       (Inl (Panic ''interface conversion: interface {} is not *agent.Agent''),
                        (w1, log))
                   | NilAgentPtr \<Rightarrow>
                       (Inr (Some (handoff_stepResult None message ?args)), (w1, log))
                   | AgentPtr q \<Rightarrow>
                       (Inr (Some (handoff_stepResult (Some q) message ?args)), (w1, log))))"
          using True d' by simp
        obtain v where v: "?v = Inr v"
          using Cons.prems unfolding unf by (cases ?v) simp_all
        have res: "TargetAgent h \<noteq> NotAnAgent \<and> w' = w1 \<and>
            sr = handoff_stepResult (case TargetAgent h of AgentPtr q \<Rightarrow> Some q | _ \<Rightarrow> None)
               message ?args"
          using Cons.prems unfolding unf v by (cases "TargetAgent h") simp_all
        show ?thesis
        proof (rule exI [of _ "[]"], rule exI [of _ h], rule exI [of _ hs], intro conjI)
          show "h # hs = [] @ h # hs" by simp
          show "ToolName h = fn_Name (Function tc)" by (rule True)
          show "\<exists>wa. ShouldHandoff h ?args wa = (Inr True, w')" using d' res by blast
          show "TargetAgent h \<noteq> NotAnAgent" using res by simp
          show "sr = handoff_stepResult (case TargetAgent h of AgentPtr q \<Rightarrow> Some q | _ \<Rightarrow> None)
               message ?args" using res by simp
          show "\<forall>x\<in>set []. ?declines x" by simp
        qed
      qed
    qed
  qed
qed

lemma scanToolCalls_taken:
  fixes sr :: "'v stepResult"
  shows "scanToolCalls unm message hs tcs (w, log) = (Inr (Some sr), (w', log')) \<Longrightarrow>
     \<exists>pre tc post w1. tcs = pre @ tc # post \<and>
        scanHandoffs unm message tc hs (w1, log) = (Inr (Some sr), (w', log')) \<and>
        (\<forall>tc'\<in>set pre. \<forall>h\<in>set hs. ToolName h = fn_Name (Function tc') \<longrightarrow>
           (\<exists>wa wb. ShouldHandoff h (fn_Arguments (Function tc')) wa = (Inr False, wb)))"
    (is "_ \<Longrightarrow> \<exists>pre tc post w1. ?P tcs pre tc post w1")
proof (induction tcs arbitrary: w)
  case Nil
  then show ?case by simp
next
  case (Cons tc rest)
  obtain x w1 log1 where s:
    "scanHandoffs unm message tc hs (w, log) = (x :: error + 'v stepResult option, (w1, log1))"
    by (metis surj_pair)
  from scanHandoffs_shape [OF s] have l: "log1 = log" by simp
  show ?case
  proof (cases x)
    case (Inl err)
    then show ?thesis using Cons.prems s by simp
  next
    case (Inr o1)
    show ?thesis
    proof (cases o1)
      case (Some sr')
      then have "?P (tc # rest) [] tc rest w" using Cons.prems s Inr by simp
      then show ?thesis by blast
    next
      case None
      then have "scanToolCalls unm message hs rest (w1, log) = (Inr (Some sr), (w', log'))"
        using Cons.prems s l Inr by simp
      from Cons.IH [OF this] obtain pre tc' post w2 where p: "?P rest pre tc' post w2" by blast
      have "\<forall>h\<in>set hs. ToolName h = fn_Name (Function tc) \<longrightarrow>
          (\<exists>wa wb. ShouldHandoff h (fn_Arguments (Function tc)) wa = (Inr False, wb))"
        using scanHandoffs_declined [of unm message tc hs w log w1 log1] s Inr None by simp
      then have "?P (tc # rest) (tc # pre) tc' post w2" using p by simp
      then show ?thesis by blast
    qed
  qed
qed

lemma scanToolCalls_append:
  fixes r :: "(error + 'v stepResult option) \<times> 'w world"
  shows "scanToolCalls unm message hs (pre @ post) wl =
     (case scanToolCalls unm message hs pre wl of
        (Inl err, wl1) \<Rightarrow> (Inl err, wl1)
      | (Inr (Some sr), wl1) \<Rightarrow> (Inr (Some (sr :: 'v stepResult)), wl1)
      | (Inr None, wl1) \<Rightarrow> scanToolCalls unm message hs post wl1)"
proof (induction pre arbitrary: wl)
  case Nil
  show ?case by simp
next
  case (Cons tc pre)
  obtain x wl1 where s:
    "scanHandoffs unm message tc hs wl = (x :: error + 'v stepResult option, wl1)"
    by (metis surj_pair)
  show ?case
  proof (cases x)
    case (Inl err)
    then show ?thesis using s by simp
  next
    case (Inr o1)
    then show ?thesis using s Cons.IH by (cases o1) simp_all
  qed
qed

lemma processToolCallsAndHandoffs_taken:
  fixes e :: "('w, 'v) env" and sr :: "'v stepResult"
  assumes "processToolCallsAndHandoffs e p message (w, log) = (Inr sr, (w', log'))"
    and "nextAgent sr = Some q"
  shows "scanToolCalls (json_Unmarshal e) message (Handoffs (heap e p)) (ToolCalls message)
           (w, log) = (Inr (Some sr), (w', log'))"
proof -
  have ne: "length (ToolCalls message) \<noteq> 0"
    using assms(1) by (auto simp: processToolCallsAndHandoffs_def)
  obtain x wl1 where s:
    "scanToolCalls (json_Unmarshal e) message (Handoffs (heap e p)) (ToolCalls message) (w, log)
       = (x :: error + 'v stepResult option, wl1)"
    by (metis surj_pair)
  show ?thesis
  proof (cases x)
    case (Inl err)
    then show ?thesis using assms(1) ne s by (simp add: processToolCallsAndHandoffs_def)
  next
    case (Inr o1)
    show ?thesis
    proof (cases o1)
      case (Some sr')
      then show ?thesis using assms(1) ne s Inr by (simp add: processToolCallsAndHandoffs_def)
    next
      case None
      obtain y wl2 where t: "executeTools p (heap e p) (ToolCalls message) wl1 = (y, wl2)"
        by (metis surj_pair)
      have "nextAgent sr = None"
        using assms(1) ne s Inr None t
        by (cases y) (auto simp: processToolCallsAndHandoffs_def)
      then show ?thesis using assms(2) by simp
    qed
  qed
qed

lemma has_prefix_append: "has_prefix s sub \<Longrightarrow> has_prefix (s @ post) sub"
  by (induction s sub rule: has_prefix.induct) simp_all


lemma strings_Contains_Nil: "strings_Contains s []"
  by (cases s) simp_all

lemma strings_Contains_append_right:
  "strings_Contains s sub \<Longrightarrow> strings_Contains (s @ post) sub"
proof (induction s)
  case Nil
  then show ?case by (simp add: strings_Contains_Nil)
next
  case (Cons c s)
  then show ?case by (auto simp: has_prefix_append [of "c # s" sub post, simplified])
qed






lemma applyInputGuardrails_loop_step:
  "applyInputGuardrails_loop i (g # gs) input (w, log) =
     (case ig_Check g input w of
        (Inl err, w1) \<Rightarrow>
          (Some (Wrap ''input guardrail error: '' err []),
           (w1, log @ [EvInputGuardrail i input (Inl err)]))
      | (Inr result, w1) \<Rightarrow>
          if ig_Allowed result
          then applyInputGuardrails_loop (Suc i) gs input
                 (w1, log @ [EvInputGuardrail i input (Inr result)])
          else (Some (Wrap [] ErrGuardrailTripwire ('': '' @ ig_Message result)),
                (w1, log @ [EvInputGuardrail i input (Inr result)])))"
  by (simp split: prod.splits sum.splits)

lemma applyInputGuardrails_loop_append:
  "applyInputGuardrails_loop i (gs1 @ gs2) input wl =
     (case applyInputGuardrails_loop i gs1 input wl of
        (Some err, wl1) \<Rightarrow> (Some err, wl1)
      | (None, wl1) \<Rightarrow> applyInputGuardrails_loop (i + length gs1) gs2 input wl1)"
proof (induction gs1 arbitrary: i wl)
  case Nil
  show ?case by simp
next
  case (Cons g gs1)
  obtain w log where wl: "wl = (w, log)" by (cases wl)
  obtain x w1 where c: "ig_Check g input w = (x, w1)" by (cases "ig_Check g input w")
  show ?case
  proof (cases x)
    case (Inl err)
    then show ?thesis using wl c by simp
  next
    case (Inr result)
    then show ?thesis using wl c Cons.IH [of "Suc i"]
      by (simp cong: prod.case_cong option.case_cong)
  qed
qed

lemma applyInputGuardrails_loop_checks:
  "applyInputGuardrails_loop i gs input (w, log) = (r, (w', log')) \<Longrightarrow>
     \<exists>evs. log' = log @ evs \<and> length evs \<le> length gs \<and>
       (\<forall>j<length evs. \<exists>x wa wb. evs ! j = EvInputGuardrail (i + j) input x \<and>
            ig_Check (gs ! j) input wa = (x, wb))"
proof (induction gs arbitrary: i w log)
  case Nil
  then show ?case by simp
next
  case (Cons g gs)
  obtain x w1 where c: "ig_Check g input w = (x, w1)" by (cases "ig_Check g input w")
  let ?ev = "EvInputGuardrail i input x"
  have stop: ?case if "log' = log @ [?ev]"
  proof (intro exI [of _ "[?ev]"] conjI)
    show "log' = log @ [?ev]" by (rule that)
    show "length [?ev] \<le> length (g # gs)" by simp
    show "\<forall>j<length [?ev]. \<exists>x wa wb. [?ev] ! j = EvInputGuardrail (i + j) input x \<and>
            ig_Check ((g # gs) ! j) input wa = (x, wb)"
      using c by auto
  qed
  show ?case
  proof (cases x)
    case (Inl err)
    then have "log' = log @ [?ev]" using Cons.prems c by simp
    then show ?thesis by (rule stop)
  next
    case (Inr result)
    show ?thesis
    proof (cases "ig_Allowed result")
      case False
      then have "log' = log @ [?ev]" using Cons.prems c Inr by simp
      then show ?thesis by (rule stop)
    next
      case True
      then have "applyInputGuardrails_loop (Suc i) gs input (w1, log @ [?ev]) = (r, (w', log'))"
        using Cons.prems c Inr by simp
      from Cons.IH [OF this] obtain evs where
        l: "log' = (log @ [?ev]) @ evs" and n: "length evs \<le> length gs"
        and k: "\<forall>j<length evs. \<exists>x wa wb. evs ! j = EvInputGuardrail (Suc i + j) input x \<and>
            ig_Check (gs ! j) input wa = (x, wb)"
        by blast
      show ?thesis
      proof (intro exI [of _ "?ev # evs"] conjI allI impI)
        show "log' = log @ ?ev # evs" using l by simp
        show "length (?ev # evs) \<le> length (g # gs)" using n by simp
        fix j assume j: "j < length (?ev # evs)"
        show "\<exists>x wa wb. (?ev # evs) ! j = EvInputGuardrail (i + j) input x \<and>
            ig_Check ((g # gs) ! j) input wa = (x, wb)"
        proof (cases j)
          case 0
          then show ?thesis using c by auto
        next
          case (Suc j')
          then have "j' < length evs" using j by simp
          with k obtain x' wa wb where "evs ! j' = EvInputGuardrail (Suc i + j') input x'"
            "ig_Check (gs ! j') input wa = (x', wb)"
            by blast
          then show ?thesis using Suc by auto
        qed
      qed
    qed
  qed
qed

lemma applyInputGuardrails_loop_allow:
  "\<forall>g\<in>set gs. \<forall>wa. \<exists>result wb. ig_Check g input wa = (Inr result, wb) \<and> ig_Allowed result \<Longrightarrow>
     \<exists>w1 evs. applyInputGuardrails_loop i gs input (w, log) = (None, (w1, log @ evs)) \<and>
        length evs = length gs \<and> model_calls evs = 0"
proof (induction gs arbitrary: i w log)
  case Nil
  show ?case by simp
next
  case (Cons g gs)
  from Cons.prems obtain result w1 where c: "ig_Check g input w = (Inr result, w1)"
    and a: "ig_Allowed result"
    by (metis list.set_intros(1))
  let ?ev = "EvInputGuardrail i input (Inr result)"
  have "\<forall>g\<in>set gs. \<forall>wa. \<exists>result wb. ig_Check g input wa = (Inr result, wb) \<and> ig_Allowed result"
    using Cons.prems by simp
  from Cons.IH [OF this, of "Suc i" w1 "log @ [?ev]"] obtain w2 evs where
    r: "applyInputGuardrails_loop (Suc i) gs input (w1, log @ [?ev]) =
          (None, (w2, (log @ [?ev]) @ evs))"
    and n: "length evs = length gs" "model_calls evs = 0"
    by blast
  have "applyInputGuardrails_loop i (g # gs) input (w, log) = (None, (w2, log @ ?ev # evs))"
    using c a r by simp
  moreover have "length (?ev # evs) = length (g # gs)" "model_calls (?ev # evs) = 0"
    using n by simp_all
  ultimately show ?case by blast
qed

lemma RunWithConfig_guardrail_log:
  fixes e :: "('w, 'v) env" and res :: "error + 'v Result"
  assumes "RunWithConfig e a input cfg (w, log) = (res, (w', log'))"
  shows "\<exists>gevs tevs. log' = log @ gevs @ tevs \<and> (\<forall>ev\<in>set tevs. \<not> is_input_guardrail ev) \<and>
           (gevs = [] \<or>
            (\<exists>r1 w1. applyInputGuardrails_loop 0 (InputGuardrails (heap e a)) input (w, log) =
                        (r1, (w1, log @ gevs))))"
    (is "\<exists>gevs tevs. ?P gevs tevs")
proof (cases "validateInputsAndSetup (heap e a) cfg")
  case (Inl err)
  then have "log' = log" using assms by (simp add: RunWithConfig_def)
  then have "?P [] []" by simp
  then show ?thesis by blast
next
  case (Inr cfg1)
  let ?s = "\<lparr>agent = a, currentAgent = a, originalInput = input, config = cfg1,
             messages = prepareMessages (heap e a) input, resultMessages = [],
             usage = zero_Usage, stepCounter = 0, finalOutput = [],
             structuredOutput = None :: 'v option\<rparr>"
  obtain r1 w1 log1 where g: "applyInputGuardrails e ?s (w, log) = (r1, (w1, log1))"
    by (metis surj_pair)
  from applyInputGuardrails_shape [OF g] obtain gevs where gevs: "log1 = log @ gevs"
    by auto
  have lp: "gevs = [] \<or>
            (\<exists>r1 w1. applyInputGuardrails_loop 0 (InputGuardrails (heap e a)) input (w, log) =
                        (r1, (w1, log @ gevs)))"
  proof (cases "length (InputGuardrails (heap e a)) = 0")
    case True
    then have "log1 = log" using g by (simp add: applyInputGuardrails_def)
    then show ?thesis using gevs by simp
  next
    case False
    then have "applyInputGuardrails_loop 0 (InputGuardrails (heap e a)) input (w, log) =
        (r1, (w1, log @ gevs))"
      using g gevs by (simp add: applyInputGuardrails_def)
    then show ?thesis by blast
  qed
  have early: ?thesis if "log' = log1"
  proof -
    have "?P gevs []" using that gevs lp by simp
    then show ?thesis by blast
  qed
  show ?thesis
  proof (cases r1)
    case (Some err)
    then have "log' = log1" using assms Inr g by (simp add: RunWithConfig_def Let_def)
    then show ?thesis by (rule early)
  next
    case None
    show ?thesis
    proof (cases "Hooks (heap e a)")
      case nh: None
      then have "log' = log1" using assms Inr g \<open>r1 = None\<close>
        by (simp add: RunWithConfig_def Let_def)
      then show ?thesis by (rule early)
    next
      case (Some hk)
      obtain r2 w2 log2 where h: "lift_io (OnStart hk a) (w1, log1) = (r2, (w2, log2))"
        by (metis surj_pair)
      have l2: "log2 = log1" using lift_io_log [OF h] .
      show ?thesis
      proof (cases r2)
        case (Some err)
        then have "log' = log1"
          using assms Inr g \<open>r1 = None\<close> \<open>Hooks (heap e a) = Some hk\<close> h l2
          by (simp add: RunWithConfig_def Let_def)
        then show ?thesis by (rule early)
      next
        case n2: None
        let ?s1 = "if input \<noteq> [] then ?s\<lparr>resultMessages := [mk_Message ''user'' input]\<rparr> else ?s"
        obtain r3 w3 log3 where lp3: "runAgentExecutionLoop e ?s1 (w2, log1) = (r3, (w3, log3))"
          by (metis surj_pair)
        from loop_trace [OF lp3] obtain tevs where tevs:
          "log3 = log1 @ tevs" "\<forall>ev\<in>set tevs. \<not> is_input_guardrail ev"
          by blast
        have run: "RunWithConfig e a input cfg (w, log) =
            (case r3 of
               Inl err \<Rightarrow>
                 if errors_Is err ErrMaxTurnsExceeded then (Inl ErrMaxTurnsExceeded, (w3, log3))
                 else (Inl (Wrap ''agent execution error: '' err []), (w3, log3))
             | Inr result \<Rightarrow> (Inr result, (w3, log3)))"
          using Inr g \<open>r1 = None\<close> \<open>Hooks (heap e a) = Some hk\<close> h l2 n2 lp3
          by (simp add: RunWithConfig_def Let_def split: sum.splits)
        have "log' = log3" using assms unfolding run by (auto split: sum.splits if_splits)
        then have "?P gevs tevs" using gevs tevs lp by simp
        then show ?thesis by blast
      qed
    qed
  qed
qed

lemma RunWithConfig_refused:
  fixes e :: "('w, 'v) env"
  assumes "Instructions (heap e a) \<noteq> []" and "ModelProvider cfg \<noteq> None"
    and "InputGuardrails (heap e a) = pre @ g # post"
    and "applyInputGuardrails_loop 0 pre input wl = (None, (w1, log1))"
    and "ig_Check g input w1 = (Inr refused, w2)" and "\<not> ig_Allowed refused"
  shows "RunWithConfig e a input cfg wl =
           (Inl (Wrap [] ErrGuardrailTripwire ('': '' @ ig_Message refused)) :: error + 'v Result,
            (w2, log1 @ [EvInputGuardrail (length pre) input (Inr refused)]))"
proof -
  obtain cfg1 where v: "validateInputsAndSetup (heap e a) cfg = Inr cfg1"
    using assms(1,2) by (cases "MaxTurns cfg \<le> 0") (auto simp: validateInputsAndSetup_def)
  have "applyInputGuardrails_loop 0 (pre @ g # post) input wl =
      (Some (Wrap [] ErrGuardrailTripwire ('': '' @ ig_Message refused)),
       (w2, log1 @ [EvInputGuardrail (length pre) input (Inr refused)]))"
    unfolding applyInputGuardrails_loop_append [of 0 pre "g # post"] assms(4)
    using assms(5,6) by simp
  then show ?thesis
    using v assms(3) by (simp add: RunWithConfig_def applyInputGuardrails_def Let_def)
qed




lemma runAgentExecutionLoop_end_final:
  "finalOutput s \<noteq> [] \<Longrightarrow>
     runAgentExecutionLoop_end e s (w, log) =
       (case Hooks (heap e (currentAgent s)) of
          None \<Rightarrow> (Inl nil_deref, (w, log))
        | Some hk \<Rightarrow>
           (case OnEnd hk (currentAgent s)
                   (case structuredOutput s of Some v \<Rightarrow> Inr v | None \<Rightarrow> Inl (finalOutput s)) w of
              (Some err, w2) \<Rightarrow> (Inl (Wrap ''error in OnEnd hook: '' err []), (w2, log))
            | (None, w2) \<Rightarrow>
                (Inr \<lparr>FinalOutput = finalOutput s, StructuredOutput = structuredOutput s,
                      LastAgent = currentAgent s,
                      History = convertModelMessages (resultMessages s),
                      res_Usage = usage s\<rparr>, (w2, log))))"
  by (simp add: runAgentExecutionLoop_end_def split: option.splits prod.splits)

lemma fst_None: "fst X = None \<Longrightarrow> \<exists>w. X = (None, w)"
  by (cases X) simp

lemma lift_io_None: "\<forall>w. fst (f w) = None \<Longrightarrow> \<exists>w1. lift_io f (w, log) = (None, (w1, log))"
  by (cases "f w") (auto dest: spec [of _ w])

lemma lift_io_Inr:
  "\<forall>w. \<exists>x w'. f w = (Inr x, w') \<Longrightarrow> \<exists>x w1. lift_io f (w, log) = (Inr x, (w1, log))"
proof -
  assume "\<forall>w. \<exists>x w'. f w = (Inr x, w')"
  then obtain x w' where "f w = (Inr x, w')" by blast
  then show ?thesis by simp
qed

lemma executeToolWithTracing_ok:
  assumes "Hooks a = Some hk" and "hooks_succeed hk"
    and "\<forall>args w. \<exists>r w'. Invoke t args w = (Inr r, w')"
  shows "\<exists>r wl'. executeToolWithTracing p a t args wl = (Inr r, wl')"
proof -
  obtain w log where wl: "wl = (w, log)" by (cases wl)
  have "fst (OnToolStart hk p t w) = None" using assms(2) by (simp add: hooks_succeed_def)
  then obtain w1 where 1: "OnToolStart hk p t w = (None, w1)" by (auto dest: fst_None)
  from assms(3) obtain r w2 where 2: "Invoke t args w1 = (Inr r, w2)" by blast
  have "fst (OnToolEnd hk p t r w2) = None" using assms(2) by (simp add: hooks_succeed_def)
  then obtain w3 where 3: "OnToolEnd hk p t r w2 = (None, w3)" by (auto dest: fst_None)
  show ?thesis using assms(1) 1 2 3 by (simp add: wl)
qed

lemma executeTools_ok:
  fixes a :: "('w, 'v) Agent"
  assumes "agent_succeeds unm A a"
  shows "\<exists>ms wl'. executeTools p a tcs wl = (Inr ms, wl')"
proof (induction tcs arbitrary: wl)
  case Nil
  show ?case by simp
next
  case (Cons tc rest)
  from assms obtain hk where hk: "Hooks a = Some hk" "hooks_succeed hk"
    by (auto simp: agent_succeeds_def)
  show ?case
  proof (cases "find (\<lambda>t. tool_Name t = fn_Name (Function tc)) (Tools a)")
    case None
    from Cons.IH [of wl] obtain ms wl2 where "executeTools p a rest wl = (Inr ms, wl2)" by blast
    then show ?thesis using None by simp
  next
    case (Some t)
    then have "t \<in> set (Tools a)" by (auto simp: find_Some_iff)
    then have "\<forall>args w. \<exists>r w'. Invoke t args w = (Inr r, w')"
      using assms by (simp add: agent_succeeds_def)
    from executeToolWithTracing_ok [OF hk this] obtain r wl1 where
      x: "executeToolWithTracing p a t (fn_Arguments (Function tc)) wl = (Inr r, wl1)"
      by blast
    from Cons.IH [of wl1] obtain ms wl2 where "executeTools p a rest wl1 = (Inr ms, wl2)"
      by blast
    then show ?thesis using Some x by simp
  qed
qed

lemma scanHandoffs_ok:
  fixes wl :: "'w world"
  assumes "\<forall>h\<in>set hs. handoff_succeeds unm A h"
  shows "\<exists>r wl'. scanHandoffs unm message tc hs wl = (Inr r, wl') \<and>
           (\<forall>sr q. r = Some (sr :: 'v stepResult) \<longrightarrow> nextAgent sr = Some q \<longrightarrow> q \<in> A)"
  using assms
proof (induction hs arbitrary: wl)
  case Nil
  show ?case by simp
next
  case (Cons h hs)
  obtain w log where wl: "wl = (w, log)" by (cases wl)
  let ?args = "fn_Arguments (Function tc)"
  have hs: "\<forall>h\<in>set hs. handoff_succeeds unm A h" using Cons.prems by simp
  have h: "handoff_succeeds unm A h" using Cons.prems by simp
  show ?case
  proof (cases "ToolName h = fn_Name (Function tc)")
    case False
    then show ?thesis using Cons.IH [OF hs, of "(w, log)"] by (simp add: wl)
  next
    case True
    from h obtain b w1 where p: "ShouldHandoff h ?args w = (Inr b, w1)"
      unfolding handoff_succeeds_def by blast
    show ?thesis
    proof (cases b)
      case False
      then show ?thesis using True p Cons.IH [OF hs, of "(w1, log)"] by (simp add: wl)
    next
      case b: True
      have v: "\<exists>d. (if length (InputJSONSchema h) > 0
                    then ValidateJSON unm ?args (InputJSONSchema h) else Inr []) = Inr d"
      proof (cases "InputJSONSchema h = []")
        case True
        then show ?thesis by simp
      next
        case False
        moreover have "fst (ShouldHandoff h ?args w) = Inr True" using p b by simp
        ultimately have "\<exists>d. ValidateJSON unm ?args (InputJSONSchema h) = Inr d"
          using h unfolding handoff_succeeds_def by blast
        then show ?thesis using False by simp
      qed
      then obtain d where d: "(if length (InputJSONSchema h) > 0
                    then ValidateJSON unm ?args (InputJSONSchema h) else Inr []) = Inr d"
        by blast
      have t: "TargetAgent h \<noteq> NotAnAgent" "\<forall>q. TargetAgent h = AgentPtr q \<longrightarrow> q \<in> A"
        using h unfolding handoff_succeeds_def by blast+
      show ?thesis
      proof (cases "TargetAgent h")
        case (AgentPtr q)
        then have "q \<in> A" using t(2) by simp
        then show ?thesis using True p b d AgentPtr
          by (simp add: wl handoff_stepResult_def del: length_greater_0_conv)
      next
        case NilAgentPtr
        then show ?thesis using True p b d
          by (simp add: wl handoff_stepResult_def del: length_greater_0_conv)
      next
        case NotAnAgent
        then show ?thesis using t(1) by simp
      qed
    qed
  qed
qed

lemma scanToolCalls_ok:
  fixes wl :: "'w world"
  assumes "\<forall>h\<in>set hs. handoff_succeeds unm A h"
  shows "\<exists>r wl'. scanToolCalls unm message hs tcs wl = (Inr r, wl') \<and>
           (\<forall>sr q. r = Some (sr :: 'v stepResult) \<longrightarrow> nextAgent sr = Some q \<longrightarrow> q \<in> A)"
proof (induction tcs arbitrary: wl)
  case Nil
  show ?case by simp
next
  case (Cons tc rest)
  from scanHandoffs_ok [OF assms, of message tc wl] obtain r wl1 where
    s: "scanHandoffs unm message tc hs wl = (Inr (r :: 'v stepResult option), wl1)"
    and q: "\<forall>sr q. r = Some sr \<longrightarrow> nextAgent sr = Some q \<longrightarrow> q \<in> A"
    by blast
  show ?case
  proof (cases r)
    case None
    then show ?thesis using s Cons.IH [of wl1] by simp
  next
    case (Some sr)
    then show ?thesis using s q by simp
  qed
qed

lemma processToolCallsAndHandoffs_ok:
  fixes e :: "('w, 'v) env"
  assumes "agent_succeeds (json_Unmarshal e) A (heap e p)" and "ToolCalls message \<noteq> []"
  shows "\<exists>sr wl'. processToolCallsAndHandoffs e p message wl = (Inr sr, wl') \<and>
           (\<forall>q. nextAgent sr = Some q \<longrightarrow> q \<in> A)"
proof -
  have hs: "\<forall>h\<in>set (Handoffs (heap e p)). handoff_succeeds (json_Unmarshal e) A h"
    using assms(1) by (simp add: agent_succeeds_def)
  from scanToolCalls_ok [OF hs, of message "ToolCalls message" wl] obtain r wl1 where
    s: "scanToolCalls (json_Unmarshal e) message (Handoffs (heap e p)) (ToolCalls message) wl =
          (Inr (r :: 'v stepResult option), wl1)"
    and q: "\<forall>sr q. r = Some sr \<longrightarrow> nextAgent sr = Some q \<longrightarrow> q \<in> A"
    by blast
  show ?thesis
  proof (cases r)
    case (Some sr)
    then show ?thesis using s q assms(2) by (simp add: processToolCallsAndHandoffs_def)
  next
    case None
    from executeTools_ok [OF assms(1), of p "ToolCalls message" wl1] obtain ms wl2 where
      "executeTools p (heap e p) (ToolCalls message) wl1 = (Inr ms, wl2)"
      by blast
    then show ?thesis using None s assms(2) by (simp add: processToolCallsAndHandoffs_def)
  qed
qed

lemma runSingleTurn_ok:
  fixes e :: "('w, 'v) env"
  assumes "agent_succeeds (json_Unmarshal e) A (heap e (currentAgent s))"
    and "always_requests_tools (config s)"
  shows "\<exists>sr s1 w1 evs. runSingleTurn e s (w, log) = (Inr (sr, s1), (w1, log @ evs)) \<and>
           model_calls evs = 1 \<and> (\<forall>ev\<in>set evs. requests_tools ev) \<and>
           sr_finalOutput sr = [] \<and> (\<forall>q. nextAgent sr = Some q \<longrightarrow> q \<in> A) \<and>
           currentAgent s1 = currentAgent s \<and> config s1 = config s \<and>
           stepCounter s1 = stepCounter s \<and> finalOutput s1 = finalOutput s"
proof -
  let ?a = "heap e (currentAgent s)"
  have "\<forall>w. \<exists>x w'. GetSystemPrompt ?a w = (Inr x, w')"
    using assms(1) by (simp add: agent_succeeds_def)
  from lift_io_Inr [OF this, of w log] obtain instructions w0 where
    g: "lift_io (GetSystemPrompt ?a) (w, log) = (Inr instructions, (w0, log))"
    by blast
  let ?s = "s\<lparr>messages := set_system_content (messages s) instructions\<rparr>"
  from assms(2) obtain provider where pr: "ModelProvider (config ?s) = Some provider"
    and al: "\<forall>msgs settings w. \<exists>response w'.
          provider msgs settings w = (Inr response, w') \<and>
          ToolCalls (resp_Message response) \<noteq> []"
    by (auto simp: always_requests_tools_def)
  from al obtain response w1 where
    c: "provider (messages ?s) (turn_settings e ?s) w0 = (Inr response, w1)"
    and tc: "ToolCalls (resp_Message response) \<noteq> []"
    by blast
  let ?ev = "EvModelCall (messages ?s) (Inr response)"
  have ca: "currentAgent ?s = currentAgent s" by simp
  from processToolCallsAndHandoffs_ok [OF assms(1) tc, of "(w1, log @ [?ev])"]
  obtain sr w2 log2 where
    p: "processToolCallsAndHandoffs e (currentAgent s) (resp_Message response) (w1, log @ [?ev]) =
          (Inr sr, (w2, log2))"
    and q: "\<forall>q. nextAgent sr = Some q \<longrightarrow> q \<in> A"
    by (metis surj_pair)
  from processToolCallsAndHandoffs_shape [OF p] obtain tevs where
    l2: "log2 = (log @ [?ev]) @ tevs" and ti: "\<forall>ev\<in>set tevs. is_tool_invoke ev"
    and fo: "sr_finalOutput sr = []"
    by auto
  have step: "processAgentStep e ?s (w0, log) =
      (Inr (sr, usage_added ?s response), (w2, log @ ?ev # tevs))"
    using processAgentStep_tools [OF pr c tc, of log] p l2 by simp
  have run: "runSingleTurn e s (w, log) =
      (Inr (sr, usage_added ?s response), (w2, log @ ?ev # tevs))"
    using g step by (simp add: runSingleTurn_def)
  have mc: "model_calls (?ev # tevs) = 1"
    using model_calls_tools [OF ti] by (simp add: model_calls_def)
  have rt: "\<forall>ev\<in>set (?ev # tevs). requests_tools ev"
  proof
    fix ev assume "ev \<in> set (?ev # tevs)"
    then consider "ev = ?ev" | "ev \<in> set tevs" by auto
    then show "requests_tools ev"
    proof cases
      case 1
      then show ?thesis using tc by simp
    next
      case 2
      then have "is_tool_invoke ev" using ti by simp
      then show ?thesis by (cases ev) simp_all
    qed
  qed
  show ?thesis
    using run mc rt fo q
    by (intro exI [of _ sr] exI [of _ "usage_added ?s response"] exI [of _ w2]
        exI [of _ "?ev # tevs"]) (simp add: usage_added_def)
qed

lemma handleAgentHandoff_ok:
  fixes e :: "('w, 'v) env"
  assumes "agent_succeeds (json_Unmarshal e) A (heap e (currentAgent s))"
    and "agent_succeeds (json_Unmarshal e) A (heap e next)"
    and "callbacks_succeed (config s)"
  shows "\<exists>s1 w1. handleAgentHandoff e s next input (w, log) = (Inr s1, (w1, log)) \<and>
           currentAgent s1 = next"
proof -
  from assms(2) obtain hk where hk: "Hooks (heap e next) = Some hk" "hooks_succeed hk"
    by (auto simp: agent_succeeds_def)
  have t: "\<exists>w1. (case find (\<lambda>h. TargetAgent h = AgentPtr next)
                  (Handoffs (heap e (currentAgent s))) of
             Some targetHandoff \<Rightarrow> processTargetHandoff e targetHandoff s next input (w, log)
           | None \<Rightarrow> (None, (w, log))) = (None, (w1, log))"
  proof (cases "find (\<lambda>h. TargetAgent h = AgentPtr next) (Handoffs (heap e (currentAgent s)))")
    case None
    then show ?thesis by simp
  next
    case (Some h)
    then have "h \<in> set (Handoffs (heap e (currentAgent s)))" by (auto simp: find_Some_iff)
    then have "handoff_succeeds (json_Unmarshal e) A h"
      using assms(1) by (simp add: agent_succeeds_def)
    then have "\<forall>w. fst (OnHandoff h (handoff_InputData e s next input) input w) = None"
      by (simp add: handoff_succeeds_def)
    from lift_io_None [OF this, of w log] obtain w1 where
      "lift_io (OnHandoff h (handoff_InputData e s next input) input) (w, log) =
         (None, (w1, log))"
      by blast
    then show ?thesis using Some by (simp add: processTargetHandoff_def)
  qed
  then obtain w1 where t1: "(case find (\<lambda>h. TargetAgent h = AgentPtr next)
                  (Handoffs (heap e (currentAgent s))) of
             Some targetHandoff \<Rightarrow> processTargetHandoff e targetHandoff s next input (w, log)
           | None \<Rightarrow> (None, (w, log))) = (None, (w1, log))"
    by blast
  have c: "\<exists>w2. (case HandoffCallback (config s) of
                 Some cb \<Rightarrow>
                   (case lift_io (cb next (currentAgent s) input) (w1, log) of
                      (Some err, wl2) \<Rightarrow> (Some (Wrap ''handoff callback failed: '' err []), wl2)
                    | (None, wl2) \<Rightarrow> (None, wl2))
               | None \<Rightarrow> (None, (w1, log))) = (None, (w2, log))"
  proof (cases "HandoffCallback (config s)")
    case None
    then show ?thesis by simp
  next
    case (Some cb)
    then have "\<forall>w. fst (cb next (currentAgent s) input w) = None"
      using assms(3) by (simp add: callbacks_succeed_def)
    from lift_io_None [OF this, of w1 log] obtain w2 where
      "lift_io (cb next (currentAgent s) input) (w1, log) = (None, (w2, log))"
      by blast
    then show ?thesis using Some by simp
  qed
  then obtain w2 where c1: "(case HandoffCallback (config s) of
                 Some cb \<Rightarrow>
                   (case lift_io (cb next (currentAgent s) input) (w1, log) of
                      (Some err, wl2) \<Rightarrow> (Some (Wrap ''handoff callback failed: '' err []), wl2)
                    | (None, wl2) \<Rightarrow> (None, wl2))
               | None \<Rightarrow> (None, (w1, log))) = (None, (w2, log))"
    by blast
  have "\<forall>w. fst (hook_OnHandoff hk next (currentAgent s) w) = None"
    using hk(2) by (simp add: hooks_succeed_def)
  from lift_io_None [OF this, of w2 log] obtain w3 where
    h1: "lift_io (hook_OnHandoff hk next (currentAgent s)) (w2, log) = (None, (w3, log))"
    by blast
  have pc: "processHandoffCallbacks e s next input (w, log) = (None, (w3, log))"
    unfolding processHandoffCallbacks_def t1 using c1 hk(1) h1 by simp
  have f: "\<exists>w4. applyHandoffInputFilter e s next input (w3, log) = (None, (w4, log))"
  proof (cases "HandoffInputFilter (config s)")
    case None
    then show ?thesis by (simp add: applyHandoffInputFilter_def)
  next
    case (Some flt)
    then have "\<forall>w. fst (flt (handoff_InputData e s next input) w) = None"
      using assms(3) by (simp add: callbacks_succeed_def)
    from lift_io_None [OF this, of w3 log] obtain w4 where
      "lift_io (flt (handoff_InputData e s next input)) (w3, log) = (None, (w4, log))"
      by blast
    then show ?thesis using Some by (simp add: applyHandoffInputFilter_def)
  qed
  then obtain w4 where f1: "applyHandoffInputFilter e s next input (w3, log) = (None, (w4, log))"
    by blast
  have "\<forall>w. \<exists>x w'. GetSystemPrompt (heap e next) w = (Inr x, w')"
    using assms(2) by (simp add: agent_succeeds_def)
  from lift_io_Inr [OF this, of w4 log] obtain newInstructions w5 where
    g: "lift_io (GetSystemPrompt (heap e next)) (w4, log) = (Inr newInstructions, (w5, log))"
    by blast
  let ?s1 = "s\<lparr>currentAgent := next,
               messages := mk_Message ''system'' newInstructions #
                           filter (\<lambda>msg. Role msg \<noteq> ''system'') (messages s)\<rparr>"
  have u: "updateMessagesForNewAgent e s next (w4, log) = (Inr ?s1, (w5, log))"
    using g by (simp add: updateMessagesForNewAgent_def)
  have "\<forall>w. fst (OnStart hk next w) = None" using hk(2) by (simp add: hooks_succeed_def)
  from lift_io_None [OF this, of w5 log] obtain w6 where
    o: "lift_io (OnStart hk next) (w5, log) = (None, (w6, log))"
    by blast
  have "handleAgentHandoff e s next input (w, log) = (Inr ?s1, (w6, log))"
    using pc f1 u hk(1) o by (simp add: handleAgentHandoff_def)
  then show ?thesis by (intro exI [of _ ?s1] exI [of _ w6]) simp
qed

lemma processStepResult_ok:
  fixes e :: "('w, 'v) env"
  assumes "\<forall>p\<in>A. agent_succeeds (json_Unmarshal e) A (heap e p)"
    and "currentAgent s \<in> A" and "callbacks_succeed (config s)"
    and "sr_finalOutput sr = []" and "\<forall>q. nextAgent sr = Some q \<longrightarrow> q \<in> A"
  shows "\<exists>s2 w2. processStepResult e s sr (w, log) = (Inr s2, (w2, log)) \<and>
           currentAgent s2 \<in> A \<and> config s2 = config s \<and> stepCounter s2 = stepCounter s \<and>
           finalOutput s2 = finalOutput s"
proof (cases "nextAgent sr")
  case None
  then show ?thesis using assms(2,4) by (simp add: processStepResult_def Let_def)
next
  case (Some nxt)
  let ?s1 = "s\<lparr>messages := messages s @ sr_messages sr,
               resultMessages := resultMessages s @ sr_messages sr\<rparr>"
  have n: "nxt \<in> A" using assms(5) Some by simp
  have a1: "agent_succeeds (json_Unmarshal e) A (heap e (currentAgent ?s1))"
    using assms(1,2) by simp
  have a2: "agent_succeeds (json_Unmarshal e) A (heap e nxt)" using assms(1) n by simp
  have a3: "callbacks_succeed (config ?s1)" using assms(3) by simp
  from handleAgentHandoff_ok [OF a1 a2 a3, of "handoffInput sr" w log] obtain s2 w2 where
    h: "handleAgentHandoff e ?s1 nxt (handoffInput sr) (w, log) = (Inr s2, (w2, log))"
    and c: "currentAgent s2 = nxt"
    by blast
  from handleAgentHandoff_shape [OF h] have
    "config s2 = config s" "stepCounter s2 = stepCounter s" "finalOutput s2 = finalOutput s"
    by simp_all
  moreover have "processStepResult e s sr (w, log) = (Inr s2, (w2, log))"
    using Some h by (simp add: processStepResult_def Let_def)
  ultimately show ?thesis using c n by blast
qed

lemma loop_ok:
  fixes e :: "('w, 'v) env"
  assumes "\<forall>p\<in>A. agent_succeeds (json_Unmarshal e) A (heap e p)"
  shows "nat (MaxTurns (config s) - stepCounter s) = n \<Longrightarrow>
     always_requests_tools (config s) \<Longrightarrow> callbacks_succeed (config s) \<Longrightarrow>
     currentAgent s \<in> A \<Longrightarrow> finalOutput s = [] \<Longrightarrow> stepCounter s \<le> MaxTurns (config s) \<Longrightarrow>
       \<exists>w' evs. runAgentExecutionLoop e s (w, log) =
                  (Inl ErrMaxTurnsExceeded :: error + 'v Result, (w', log @ evs)) \<and>
                int (model_calls evs) = MaxTurns (config s) - stepCounter s \<and>
                (\<forall>ev\<in>set evs. requests_tools ev)"
proof (induction n arbitrary: s w log)
  case 0
  then have "\<not> stepCounter s < MaxTurns (config s)" by simp
  from loop_stop [OF this, of e "(w, log)"] have
    "runAgentExecutionLoop e s (w, log) = (Inl ErrMaxTurnsExceeded, (w, log @ []))"
    using 0 by (simp add: runAgentExecutionLoop_end_def)
  moreover have "int (model_calls []) = MaxTurns (config s) - stepCounter s"
    using 0 by simp
  ultimately show ?case by (intro exI [of _ w] exI [of _ "[]"]) simp
next
  case (Suc n)
  then have lt: "stepCounter s < MaxTurns (config s)" by simp
  have a: "agent_succeeds (json_Unmarshal e) A (heap e (currentAgent s))"
    using assms Suc.prems(4) by simp
  from runSingleTurn_ok [OF a Suc.prems(2), of w log] obtain sr s1 w1 evs where
    t: "runSingleTurn e s (w, log) = (Inr (sr, s1), (w1, log @ evs))"
    and mc: "model_calls evs = 1" and rt: "\<forall>ev\<in>set evs. requests_tools ev"
    and fo: "sr_finalOutput sr = []" and q: "\<forall>q. nextAgent sr = Some q \<longrightarrow> q \<in> A"
    and fr: "currentAgent s1 = currentAgent s" "config s1 = config s"
      "stepCounter s1 = stepCounter s" "finalOutput s1 = finalOutput s"
    by blast
  have c1: "currentAgent s1 \<in> A" "callbacks_succeed (config s1)"
    using fr Suc.prems by simp_all
  from processStepResult_ok [OF assms c1 fo q, of w1 "log @ evs"] obtain s2 w2 where
    p: "processStepResult e s1 sr (w1, log @ evs) = (Inr s2, (w2, log @ evs))"
    and f2: "currentAgent s2 \<in> A" "config s2 = config s1" "stepCounter s2 = stepCounter s1"
      "finalOutput s2 = finalOutput s1"
    by blast
  let ?s3 = "s2\<lparr>stepCounter := stepCounter s2 + 1\<rparr>"
  have e2: "finalOutput s2 = []" using f2 fr Suc.prems by simp
  have lp: "runAgentExecutionLoop e s (w, log) = runAgentExecutionLoop e ?s3 (w2, log @ evs)"
    using loop_continue [OF lt t p e2] .
  have m: "nat (MaxTurns (config ?s3) - stepCounter ?s3) = n"
    using Suc.prems(1) f2 fr by simp
  have h: "always_requests_tools (config ?s3)" "callbacks_succeed (config ?s3)"
    "currentAgent ?s3 \<in> A" "finalOutput ?s3 = []" "stepCounter ?s3 \<le> MaxTurns (config ?s3)"
    using Suc.prems f2 fr lt by simp_all
  from Suc.IH [OF m h, of w2 "log @ evs"] obtain w' evs' where
    r: "runAgentExecutionLoop e ?s3 (w2, log @ evs) =
          (Inl ErrMaxTurnsExceeded :: error + 'v Result, (w', (log @ evs) @ evs'))"
    and mc': "int (model_calls evs') = MaxTurns (config ?s3) - stepCounter ?s3"
    and rt': "\<forall>ev\<in>set evs'. requests_tools ev"
    by blast
  have "runAgentExecutionLoop e s (w, log) = (Inl ErrMaxTurnsExceeded, (w', log @ evs @ evs'))"
    using lp r by simp
  moreover have "int (model_calls (evs @ evs')) = MaxTurns (config s) - stepCounter s"
    using mc mc' f2 fr by (simp add: model_calls_def)
  moreover have "\<forall>ev\<in>set (evs @ evs'). requests_tools ev" using rt rt' by auto
  ultimately show ?case by (intro exI [of _ w'] exI [of _ "evs @ evs'"]) simp
qed

lemma event_failure_not_budget: "event_failure ev = Some x \<Longrightarrow> x \<noteq> ErrMaxTurnsExceeded"
  by (cases ev rule: event_failure.cases) (auto split: if_splits)

lemma RunWithConfig_outcome:
  fixes e :: "('w, 'v) env" and res :: "error + 'v Result"
  assumes "RunWithConfig e a input cfg (w, []) = (res, (w', log'))"
  shows "(\<exists>err. res = Inl err \<and> err \<noteq> ErrMaxTurnsExceeded \<and> model_calls log' = 0) \<or>
         (\<exists>cfg1 gevs w2 r3.
            validateInputsAndSetup (heap e a) cfg = Inr cfg1 \<and> model_calls gevs = 0 \<and>
            runAgentExecutionLoop e (initial_state e a input cfg1) (w2, gevs) = (r3, (w', log')) \<and>
            res = (case r3 of
                     Inl err \<Rightarrow>
                       if errors_Is err ErrMaxTurnsExceeded then Inl ErrMaxTurnsExceeded
                       else Inl (Wrap ''agent execution error: '' err [])
                   | Inr result \<Rightarrow> Inr result))"
    (is "?A \<or> ?B")
proof (cases "validateInputsAndSetup (heap e a) cfg")
  case (Inl err)
  then have "res = Inl (Wrap ''validation error: '' err [])" "log' = []"
    using assms by (simp_all add: RunWithConfig_def)
  then have ?A by (simp add: model_calls_def)
  then show ?thesis ..
next
  case (Inr cfg1)
  let ?s = "\<lparr>agent = a, currentAgent = a, originalInput = input, config = cfg1,
             messages = prepareMessages (heap e a) input, resultMessages = [],
             usage = zero_Usage, stepCounter = 0, finalOutput = [],
             structuredOutput = None :: 'v option\<rparr>"
  obtain r1 w1 log1 where g: "applyInputGuardrails e ?s (w, []) = (r1, (w1, log1))"
    by (metis surj_pair)
  from applyInputGuardrails_shape [OF g] obtain gevs where gevs:
    "log1 = [] @ gevs"
    "\<forall>j<length gevs. \<exists>x. gevs ! j = EvInputGuardrail j input x"
    "\<forall>err. r1 = Some err \<longrightarrow> gevs \<noteq> [] \<and> event_failure (last gevs) = Some err"
    by auto
  have mc: "model_calls log1 = 0"
    using gevs(1) model_calls_input_guardrails [OF gevs(2)] by simp
  show ?thesis
  proof (cases r1)
    case (Some err)
    then have "res = Inl err" "log' = log1"
      using assms Inr g by (simp_all add: RunWithConfig_def Let_def)
    moreover have "err \<noteq> ErrMaxTurnsExceeded"
      using gevs(3) Some event_failure_not_budget by blast
    ultimately have ?A using mc by simp
    then show ?thesis ..
  next
    case None
    show ?thesis
    proof (cases "Hooks (heap e a)")
      case nh: None
      then have "res = Inl nil_deref" "log' = log1" using assms Inr g \<open>r1 = None\<close>
        by (simp_all add: RunWithConfig_def Let_def)
      then have ?A using mc by (simp add: nil_deref_def)
      then show ?thesis ..
    next
      case (Some hk)
      obtain r2 w2 log2 where h: "lift_io (OnStart hk a) (w1, log1) = (r2, (w2, log2))"
        by (metis surj_pair)
      have l2: "log2 = log1" using lift_io_log [OF h] .
      show ?thesis
      proof (cases r2)
        case (Some err)
        then have "res = Inl (Wrap ''error in OnStart hook: '' err [])" "log' = log1"
          using assms Inr g \<open>r1 = None\<close> \<open>Hooks (heap e a) = Some hk\<close> h l2
          by (simp_all add: RunWithConfig_def Let_def)
        then have ?A using mc by simp
        then show ?thesis ..
      next
        case n2: None
        let ?s1 = "if input \<noteq> [] then ?s\<lparr>resultMessages := [mk_Message ''user'' input]\<rparr> else ?s"
        have s1: "?s1 = initial_state e a input cfg1" by (simp add: initial_state_def)
        obtain r3 w3 log3 where lp: "runAgentExecutionLoop e ?s1 (w2, log1) = (r3, (w3, log3))"
          by (metis surj_pair)
        have run: "RunWithConfig e a input cfg (w, []) =
            (case r3 of
               Inl err \<Rightarrow>
                 if errors_Is err ErrMaxTurnsExceeded then (Inl ErrMaxTurnsExceeded, (w3, log3))
                 else (Inl (Wrap ''agent execution error: '' err []), (w3, log3))
             | Inr result \<Rightarrow> (Inr result, (w3, log3)))"
          using Inr g \<open>r1 = None\<close> \<open>Hooks (heap e a) = Some hk\<close> h l2 n2 lp
          by (simp add: RunWithConfig_def Let_def split: sum.splits)
        have l': "log' = log3" "w' = w3"
          using assms unfolding run by (auto split: sum.splits if_splits)
        have r: "res = (case r3 of
                     Inl err \<Rightarrow>
                       if errors_Is err ErrMaxTurnsExceeded then Inl ErrMaxTurnsExceeded
                       else Inl (Wrap ''agent execution error: '' err [])
                   | Inr result \<Rightarrow> Inr result)"
          using assms unfolding run by (auto split: sum.splits if_splits)
        have "runAgentExecutionLoop e (initial_state e a input cfg1) (w2, log1) = (r3, (w', log'))"
          using lp l' unfolding s1 by simp
        then have ?B using Inr mc r by blast
        then show ?thesis ..
      qed
    qed
  qed
qed

lemma RunWithConfig_ok:
  fixes e :: "('w, 'v) env"
  assumes "1 \<le> MaxTurns cfg" and "Instructions (heap e a) \<noteq> []"
    and "always_requests_tools cfg" and "callbacks_succeed cfg"
    and "a \<in> A" and "\<forall>p\<in>A. agent_succeeds (json_Unmarshal e) A (heap e p)"
    and "\<forall>g\<in>set (InputGuardrails (heap e a)). \<forall>wa. \<exists>result wb.
           ig_Check g input wa = (Inr result, wb) \<and> ig_Allowed result"
  shows "\<exists>w' log. RunWithConfig e a input cfg (w, []) =
                    (Inl ErrMaxTurnsExceeded :: error + 'v Result, (w', log)) \<and>
                  int (model_calls log) = MaxTurns cfg \<and> (\<forall>ev\<in>set log. requests_tools ev)"
proof -
  have mp: "ModelProvider cfg \<noteq> None" using assms(3) by (auto simp: always_requests_tools_def)
  have v: "validateInputsAndSetup (heap e a) cfg = Inr cfg"
    using assms(1,2) mp by (simp add: validateInputsAndSetup_def)
  let ?s = "\<lparr>agent = a, currentAgent = a, originalInput = input, config = cfg,
             messages = prepareMessages (heap e a) input, resultMessages = [],
             usage = zero_Usage, stepCounter = 0, finalOutput = [],
             structuredOutput = None :: 'v option\<rparr>"
  from applyInputGuardrails_loop_allow [OF assms(7), of 0 w "[]"] obtain w1 gevs where
    gl: "applyInputGuardrails_loop 0 (InputGuardrails (heap e a)) input (w, []) =
           (None, (w1, [] @ gevs))"
    and g0: "model_calls gevs = 0"
    by blast
  have g: "applyInputGuardrails e ?s (w, []) = (None, (w1, gevs))"
  proof (cases "InputGuardrails (heap e a) = []")
    case True
    then show ?thesis using gl by (simp add: applyInputGuardrails_def)
  next
    case False
    then show ?thesis using gl by (simp add: applyInputGuardrails_def)
  qed
  have ig: "\<forall>ev\<in>set gevs. requests_tools ev"
  proof
    fix ev assume "ev \<in> set gevs"
    then have "\<not> is_model_call ev" using g0 by (auto simp: model_calls_def filter_empty_conv)
    then show "requests_tools ev" by (cases ev) simp_all
  qed
  from assms(5,6) obtain hk where hk: "Hooks (heap e a) = Some hk" "hooks_succeed hk"
    by (auto simp: agent_succeeds_def)
  have "\<forall>w. fst (OnStart hk a w) = None" using hk(2) by (simp add: hooks_succeed_def)
  from lift_io_None [OF this, of w1 gevs] obtain w2 where
    o: "lift_io (OnStart hk a) (w1, gevs) = (None, (w2, gevs))"
    by blast
  let ?s1 = "if input \<noteq> [] then ?s\<lparr>resultMessages := [mk_Message ''user'' input]\<rparr> else ?s"
  have h: "nat (MaxTurns (config ?s1) - stepCounter ?s1) = nat (MaxTurns cfg)"
    "always_requests_tools (config ?s1)" "callbacks_succeed (config ?s1)"
    "currentAgent ?s1 \<in> A" "finalOutput ?s1 = []" "stepCounter ?s1 \<le> MaxTurns (config ?s1)"
    using assms by simp_all
  from loop_ok [OF assms(6) h, of w2 gevs] obtain w' evs where
    lp: "runAgentExecutionLoop e ?s1 (w2, gevs) =
           (Inl ErrMaxTurnsExceeded :: error + 'v Result, (w', gevs @ evs))"
    and mc: "int (model_calls evs) = MaxTurns (config ?s1) - stepCounter ?s1"
    and rt: "\<forall>ev\<in>set evs. requests_tools ev"
    by blast
  have "RunWithConfig e a input cfg (w, []) = (Inl ErrMaxTurnsExceeded, (w', gevs @ evs))"
    using v g hk(1) o lp by (simp add: RunWithConfig_def Let_def)
  moreover have "int (model_calls (gevs @ evs)) = MaxTurns cfg"
    using mc g0 by (simp add: model_calls_def)
  moreover have "\<forall>ev\<in>set (gevs @ evs). requests_tools ev" using ig rt by auto
  ultimately show ?thesis by blast
qed

lemma validateInputsAndSetup_keeps:
  "validateInputsAndSetup a cfg = Inr cfg1 \<Longrightarrow> 1 \<le> MaxTurns cfg \<Longrightarrow> cfg1 = cfg"
  by (auto simp: validateInputsAndSetup_def split: if_splits)

section \<open>C1: the turn budget\<close>

text \<open>
  Claim C1, as the code has it, for a budget of \<open>N \<ge> 1\<close> turns.
  \<^medskip> First, when nothing fails, the run ends with exactly \<^term>\<open>ErrMaxTurnsExceeded\<close> after
  exactly \<open>N\<close> calls of the completion service: the starting agent has instructions, its
  input guardrails allow the input, the completion service answers every call with a
  response that requests invocations, and the agents that the run can reach (a set \<open>A\<close>
  closed under the handoffs), their hooks, tools and handoffs and the configuration's
  callbacks return no error (\<^term>\<open>agent_succeeds\<close>, \<^term>\<open>callbacks_succeed\<close>).
  \<^medskip> Second, the loop started with the turn counter at zero and no final output, seeing only
  responses that request invocations, never returns a result: it fails either with
  \<^term>\<open>ErrMaxTurnsExceeded\<close> itself, and then after exactly \<open>N\<close> calls, or with another
  error, the one that aborted a turn, after at most \<open>N\<close> calls.
  \<^medskip> Third, a run that sees only such responses returns an error after at most \<open>N\<close> calls.
  Either it fails before the loop, with no call and an error other than
  \<^term>\<open>ErrMaxTurnsExceeded\<close>, or the loop fails with an error \<open>lerr\<close>. The run then returns
  \<^term>\<open>ErrMaxTurnsExceeded\<close> when \<open>lerr\<close> unwraps to it (\<^verbatim>\<open>errors.Is\<close>), which is the case
  when the budget is used up and also when the error that aborted a turn wraps that
  sentinel, and otherwise \<open>lerr\<close> behind the prefix \<^verbatim>\<open>agent execution error: \<close>. A
  dereference of missing hooks and a handoff target that is not an agent, which panic in
  the code, are errors here.
\<close>

theorem C1_turn_budget:
  fixes e :: "('w, 'v) env" and res :: "error + 'v Result" and run_res :: "error + 'v Result"
  shows
    "(1 \<le> MaxTurns cfg \<longrightarrow> Instructions (heap e a) \<noteq> [] \<longrightarrow>
      always_requests_tools cfg \<longrightarrow> callbacks_succeed cfg \<longrightarrow>
      a \<in> A \<longrightarrow> (\<forall>p\<in>A. agent_succeeds (json_Unmarshal e) A (heap e p)) \<longrightarrow>
      (\<forall>g\<in>set (InputGuardrails (heap e a)). \<forall>wa. \<exists>result wb.
         ig_Check g input wa = (Inr result, wb) \<and> ig_Allowed result) \<longrightarrow>
        (\<exists>w1 log1. RunWithConfig e a input cfg (w0, []) =
                      (Inl ErrMaxTurnsExceeded :: error + 'v Result, (w1, log1)) \<and>
                    int (model_calls log1) = MaxTurns cfg \<and>
                    (\<forall>ev\<in>set log1. requests_tools ev))) \<and>
     (1 \<le> N \<longrightarrow> MaxTurns (config s) = N \<longrightarrow> stepCounter s = 0 \<longrightarrow> finalOutput s = [] \<longrightarrow>
      runAgentExecutionLoop e s (w, log) = (res, (w', log')) \<longrightarrow>
        (\<exists>evs. log' = log @ evs \<and>
           ((\<forall>ev\<in>set evs. requests_tools ev) \<longrightarrow>
              (res = Inl ErrMaxTurnsExceeded \<and> int (model_calls evs) = N) \<or>
              (\<exists>err. res = Inl err \<and> err \<noteq> ErrMaxTurnsExceeded \<and>
                 int (model_calls evs) \<le> N)))) \<and>
     (1 \<le> MaxTurns cfg \<longrightarrow>
      RunWithConfig e a input cfg (w0, []) = (run_res, (w0', run_log)) \<longrightarrow>
      (\<forall>ev\<in>set run_log. requests_tools ev) \<longrightarrow>
        int (model_calls run_log) \<le> MaxTurns cfg \<and>
        ((\<exists>err. run_res = Inl err \<and> err \<noteq> ErrMaxTurnsExceeded \<and> model_calls run_log = 0) \<or>
         (\<exists>w2 gevs lerr.
            model_calls gevs = 0 \<and>
            runAgentExecutionLoop e (initial_state e a input cfg) (w2, gevs) =
              (Inl lerr, (w0', run_log)) \<and>
            (lerr = ErrMaxTurnsExceeded \<longrightarrow> int (model_calls run_log) = MaxTurns cfg) \<and>
            run_res = (if errors_Is lerr ErrMaxTurnsExceeded then Inl ErrMaxTurnsExceeded
                       else Inl (Wrap ''agent execution error: '' lerr [])))))"
proof (intro conjI impI)
  assume "1 \<le> MaxTurns cfg" "Instructions (heap e a) \<noteq> []" "always_requests_tools cfg"
    "callbacks_succeed cfg" "a \<in> A" "\<forall>p\<in>A. agent_succeeds (json_Unmarshal e) A (heap e p)"
    "\<forall>g\<in>set (InputGuardrails (heap e a)). \<forall>wa. \<exists>result wb.
         ig_Check g input wa = (Inr result, wb) \<and> ig_Allowed result"
  then show "\<exists>w1 log1. RunWithConfig e a input cfg (w0, []) =
                      (Inl ErrMaxTurnsExceeded :: error + 'v Result, (w1, log1)) \<and>
                    int (model_calls log1) = MaxTurns cfg \<and>
                    (\<forall>ev\<in>set log1. requests_tools ev)"
    by (rule RunWithConfig_ok)
next
  assume n: "1 \<le> N" and mt: "MaxTurns (config s) = N" and sc: "stepCounter s = 0"
    and fo: "finalOutput s = []"
    and lp: "runAgentExecutionLoop e s (w, log) = (res, (w', log'))"
  from loop_trace [OF lp] obtain evs where
    l: "log' = log @ evs"
    and b: "finalOutput s = [] \<longrightarrow> stepCounter s \<le> MaxTurns (config s) \<longrightarrow>
              (\<forall>ev\<in>set evs. requests_tools ev) \<longrightarrow> budget_outcome s evs res"
    by blast
  have "(\<forall>ev\<in>set evs. requests_tools ev) \<longrightarrow>
              (res = Inl ErrMaxTurnsExceeded \<and> int (model_calls evs) = N) \<or>
              (\<exists>err. res = Inl err \<and> err \<noteq> ErrMaxTurnsExceeded \<and>
                 int (model_calls evs) \<le> N)"
    using b fo sc mt n by (simp add: budget_outcome_def)
  with l show "\<exists>evs. log' = log @ evs \<and>
           ((\<forall>ev\<in>set evs. requests_tools ev) \<longrightarrow>
              (res = Inl ErrMaxTurnsExceeded \<and> int (model_calls evs) = N) \<or>
              (\<exists>err. res = Inl err \<and> err \<noteq> ErrMaxTurnsExceeded \<and>
                 int (model_calls evs) \<le> N))"
    by blast
next
  assume n: "1 \<le> MaxTurns cfg"
    and run: "RunWithConfig e a input cfg (w0, []) = (run_res, (w0', run_log))"
    and rt: "\<forall>ev\<in>set run_log. requests_tools ev"
  let ?early = "\<exists>err. run_res = Inl err \<and> err \<noteq> ErrMaxTurnsExceeded \<and> model_calls run_log = 0"
  let ?late = "\<exists>w2 gevs lerr.
            model_calls gevs = 0 \<and>
            runAgentExecutionLoop e (initial_state e a input cfg) (w2, gevs) =
              (Inl lerr, (w0', run_log)) \<and>
            (lerr = ErrMaxTurnsExceeded \<longrightarrow> int (model_calls run_log) = MaxTurns cfg) \<and>
            run_res = (if errors_Is lerr ErrMaxTurnsExceeded then Inl ErrMaxTurnsExceeded
                       else Inl (Wrap ''agent execution error: '' lerr []))"
  have both: "int (model_calls run_log) \<le> MaxTurns cfg \<and> (?early \<or> ?late)"
  proof -
    from RunWithConfig_outcome [OF run] consider
      (early) ?early
    | (loop) cfg1 gevs w2 r3 where
        "validateInputsAndSetup (heap e a) cfg = Inr cfg1" "model_calls gevs = 0"
        "runAgentExecutionLoop e (initial_state e a input cfg1) (w2, gevs) = (r3, (w0', run_log))"
        "run_res = (case r3 of
                     Inl err \<Rightarrow>
                       if errors_Is err ErrMaxTurnsExceeded then Inl ErrMaxTurnsExceeded
                       else Inl (Wrap ''agent execution error: '' err [])
                   | Inr result \<Rightarrow> Inr result)"
      by blast
    then show ?thesis
    proof cases
      case early
      then show ?thesis using n by auto
    next
      case loop
      let ?s = "initial_state e a input cfg"
      have c: "cfg1 = cfg" using validateInputsAndSetup_keeps [OF loop(1) n] .
      have lp: "runAgentExecutionLoop e ?s (w2, gevs) = (r3, (w0', run_log))"
        using loop(3) c by simp
      have st: "finalOutput ?s = []" "stepCounter ?s = 0" "config ?s = cfg"
        by (simp_all add: initial_state_def)
      from loop_trace [OF lp] obtain tevs where
        l: "run_log = gevs @ tevs"
        and b: "finalOutput ?s = [] \<longrightarrow> stepCounter ?s \<le> MaxTurns (config ?s) \<longrightarrow>
              (\<forall>ev\<in>set tevs. requests_tools ev) \<longrightarrow> budget_outcome ?s tevs r3"
        by blast
      have "\<forall>ev\<in>set tevs. requests_tools ev" using rt l by simp
      with b st n have bo: "budget_outcome ?s tevs r3" by simp
      have mc: "model_calls run_log = model_calls tevs"
        using l loop(2) by (simp add: model_calls_def)
      from bo obtain lerr where le: "r3 = Inl lerr"
        and le1: "lerr = ErrMaxTurnsExceeded \<longrightarrow> int (model_calls tevs) = MaxTurns cfg"
        and le2: "int (model_calls tevs) \<le> MaxTurns cfg"
        unfolding budget_outcome_def st by auto
      have "?late"
        using loop(2) lp le le1 mc loop(4)
        by (intro exI [of _ w2] exI [of _ gevs] exI [of _ lerr]) simp
      then show ?thesis using le2 mc by simp
    qed
  qed
  from both show "int (model_calls run_log) \<le> MaxTurns cfg" by simp
  from both show "?early \<or> ?late" by simp
qed

theorem C1_turn_budget_witness:
  "\<exists>w1 log1 res w' log' run_res w0' run_log sres ws slog.
     1 \<le> MaxTurns (persistent_config ''test_tool'' 3) \<and>
     Instructions (heap (test_env toolAgent) 0) \<noteq> [] \<and>
     always_requests_tools (persistent_config ''test_tool'' 3) \<and>
     callbacks_succeed (persistent_config ''test_tool'' 3) \<and>
     agent_succeeds (json_Unmarshal (test_env toolAgent)) {0} (heap (test_env toolAgent) 0) \<and>
     InputGuardrails (heap (test_env toolAgent) 0) = [] \<and>
     RunWithConfig (test_env toolAgent) 0 ''test input'' (persistent_config ''test_tool'' 3)
       (0, []) = (Inl ErrMaxTurnsExceeded, (w1, log1)) \<and>
     int (model_calls log1) = 3 \<and>
     (1 :: int) \<le> 5 \<and> MaxTurns (config max_turns_state) = 5 \<and>
     stepCounter max_turns_state = 0 \<and> finalOutput max_turns_state = [] \<and>
     runAgentExecutionLoop (test_env toolAgent) max_turns_state (0, []) = (res, (w', log')) \<and>
     (\<forall>ev\<in>set log'. requests_tools ev) \<and>
     res = Inl ErrMaxTurnsExceeded \<and> int (model_calls log') = 5 \<and>
     1 \<le> MaxTurns (test_config (tool_call_outputs ''test_tool'') 5) \<and>
     RunWithConfig (test_env toolAgent) 0 ''test input''
       (test_config (tool_call_outputs ''test_tool'') 5) (0, []) = (run_res, (w0', run_log)) \<and>
     (\<forall>ev\<in>set run_log. requests_tools ev) \<and>
     run_res = Inl ErrMaxTurnsExceeded \<and> int (model_calls run_log) = 5 \<and>
     (\<exists>w2 gevs lerr.
        runAgentExecutionLoop (test_env toolAgent)
          (initial_state (test_env toolAgent) 0 ''test input''
             (test_config (tool_call_outputs ''test_tool'') 5)) (w2, gevs) =
          (Inl lerr, (w0', run_log)) \<and>
        errors_Is lerr ErrMaxTurnsExceeded) \<and>
     1 \<le> MaxTurns (persistent_config ''budget_tool'' 5) \<and>
     RunWithConfig (test_env sentinel_agent) 0 ''test input''
       (persistent_config ''budget_tool'' 5) (0, []) = (sres, (ws, slog)) \<and>
     (\<forall>ev\<in>set slog. requests_tools ev) \<and>
     sres = Inl ErrMaxTurnsExceeded \<and> model_calls slog = 1 \<and>
     (\<exists>w2 gevs lerr.
        runAgentExecutionLoop (test_env sentinel_agent)
          (initial_state (test_env sentinel_agent) 0 ''test input''
             (persistent_config ''budget_tool'' 5)) (w2, gevs) =
          (Inl lerr, (ws, slog)) \<and>
        lerr \<noteq> ErrMaxTurnsExceeded \<and> errors_Is lerr ErrMaxTurnsExceeded)"
proof -
  let ?e = "test_env toolAgent"
  let ?pc = "persistent_config ''test_tool'' 3"
  let ?cfg = "test_config (tool_call_outputs ''test_tool'') 5"
  let ?se = "test_env sentinel_agent"
  let ?sc = "persistent_config ''budget_tool'' 5"
  define L where "L = runAgentExecutionLoop ?e max_turns_state (0, [])"
  define R :: "(error + unit Result) \<times> nat world" where
    "R = RunWithConfig ?e 0 ''test input'' ?cfg (0, [])"
  define S :: "(error + unit Result) \<times> nat world" where
    "S = RunWithConfig ?se 0 ''test input'' ?sc (0, [])"
  have p1: "1 \<le> MaxTurns ?pc" by (simp add: persistent_config_def)
  have p2: "Instructions (heap ?e 0) \<noteq> []"
    by (simp add: test_env_def toolAgent_def testAgent_def New_def)
  have p3: "always_requests_tools ?pc"
    by (simp add: always_requests_tools_def persistent_config_def persistent_model_def
        GetFunctionToolCall_def)
  have p4: "callbacks_succeed ?pc" by (simp add: callbacks_succeed_def persistent_config_def)
  have p5: "(0 :: nat) \<in> {0}" by simp
  have p6: "agent_succeeds (json_Unmarshal ?e) {0} (heap ?e 0)"
    by (simp add: agent_succeeds_def hooks_succeed_def test_env_def toolAgent_def testAgent_def
        New_def GetSystemPrompt_def BaseAgentHooks_def NewFunctionTool_def)
  then have p6': "\<And>p. p \<in> {0 :: nat} \<Longrightarrow> agent_succeeds (json_Unmarshal ?e) {0} (heap ?e p)"
    by simp
  have p7: "InputGuardrails (heap ?e 0) = []"
    by (simp add: test_env_def toolAgent_def testAgent_def New_def)
  then have p7': "\<And>g wa. g \<in> set (InputGuardrails (heap ?e 0)) \<Longrightarrow>
      \<exists>result wb. ig_Check g ''test input'' wa = (Inr result, wb) \<and> ig_Allowed result"
    by simp
  from C1_turn_budget [THEN conjunct1, rule_format, of ?pc ?e 0 "{0}" "''test input''" 0,
      OF p1 p2 p3 p4 p5 p6' p7']
  obtain w1 log1 where
    a: "RunWithConfig ?e 0 ''test input'' ?pc (0, []) = (Inl ErrMaxTurnsExceeded, (w1, log1))"
    and a': "int (model_calls log1) = MaxTurns ?pc"
    by blast
  have a3: "int (model_calls log1) = 3" using a' by (simp add: persistent_config_def)
  have n: "(1 :: int) \<le> 5" by simp
  have mt: "MaxTurns (config max_turns_state) = 5"
    by (simp add: max_turns_state_def initial_state_def test_config_def)
  have sc: "stepCounter max_turns_state = 0"
    by (simp add: max_turns_state_def initial_state_def)
  have fo: "finalOutput max_turns_state = []"
    by (simp add: max_turns_state_def initial_state_def)
  have lp: "runAgentExecutionLoop ?e max_turns_state (0, []) = (fst L, (fst (snd L), snd (snd L)))"
    by (simp add: L_def)
  have rt: "\<forall>ev\<in>set (snd (snd L)). requests_tools ev" unfolding L_def by code_simp
  have res: "fst L = Inl ErrMaxTurnsExceeded" unfolding L_def by code_simp
  from C1_turn_budget [THEN conjunct2, THEN conjunct1, rule_format, OF n mt sc fo lp]
  obtain evs where evs: "snd (snd L) = [] @ evs"
    and d: "(\<forall>ev\<in>set evs. requests_tools ev) \<longrightarrow>
              (fst L = Inl ErrMaxTurnsExceeded \<and> int (model_calls evs) = 5) \<or>
              (\<exists>err. fst L = Inl err \<and> err \<noteq> ErrMaxTurnsExceeded \<and>
                 int (model_calls evs) \<le> 5)"
    by blast
  have "evs = snd (snd L)" using evs by simp
  with d rt res have mc: "int (model_calls (snd (snd L))) = 5" by auto
  have n': "1 \<le> MaxTurns ?cfg" by (simp add: test_config_def)
  have run: "RunWithConfig ?e 0 ''test input'' ?cfg (0, []) = (fst R, (fst (snd R), snd (snd R)))"
    by (simp add: R_def)
  have rt': "\<forall>ev\<in>set (snd (snd R)). requests_tools ev" unfolding R_def by code_simp
  have res': "fst R = Inl ErrMaxTurnsExceeded" unfolding R_def by code_simp
  have mc': "int (model_calls (snd (snd R))) = 5" unfolding R_def by code_simp
  from C1_turn_budget [THEN conjunct2, THEN conjunct2, rule_format, OF n' run rt' [rule_format]]
  have "(\<exists>err. fst R = Inl err \<and> err \<noteq> ErrMaxTurnsExceeded \<and> model_calls (snd (snd R)) = 0) \<or>
         (\<exists>w2 gevs lerr.
            model_calls gevs = 0 \<and>
            runAgentExecutionLoop ?e (initial_state ?e 0 ''test input'' ?cfg) (w2, gevs) =
              (Inl lerr, (fst (snd R), snd (snd R))) \<and>
            (lerr = ErrMaxTurnsExceeded \<longrightarrow> int (model_calls (snd (snd R))) = MaxTurns ?cfg) \<and>
            fst R = (if errors_Is lerr ErrMaxTurnsExceeded then Inl ErrMaxTurnsExceeded
                     else Inl (Wrap ''agent execution error: '' lerr [])))"
    by simp
  then obtain w2 gevs lerr where
    late: "runAgentExecutionLoop ?e (initial_state ?e 0 ''test input'' ?cfg) (w2, gevs) =
              (Inl lerr, (fst (snd R), snd (snd R)))"
    and r: "fst R = (if errors_Is lerr ErrMaxTurnsExceeded then Inl ErrMaxTurnsExceeded
                     else Inl (Wrap ''agent execution error: '' lerr []))"
    using mc' by auto
  have is1: "errors_Is lerr ErrMaxTurnsExceeded" using r res' by (auto split: if_splits)
  have late1: "\<exists>w2 gevs lerr.
        runAgentExecutionLoop ?e (initial_state ?e 0 ''test input'' ?cfg) (w2, gevs) =
          (Inl lerr, (fst (snd R), snd (snd R))) \<and>
        errors_Is lerr ErrMaxTurnsExceeded"
    using late is1 by blast
  have sn: "1 \<le> MaxTurns ?sc" by (simp add: persistent_config_def)
  have srun: "RunWithConfig ?se 0 ''test input'' ?sc (0, []) = (fst S, (fst (snd S), snd (snd S)))"
    by (simp add: S_def)
  have srt: "\<forall>ev\<in>set (snd (snd S)). requests_tools ev" unfolding S_def by code_simp
  have sres: "fst S = Inl ErrMaxTurnsExceeded" unfolding S_def by code_simp
  have smc: "model_calls (snd (snd S)) = 1" unfolding S_def by code_simp
  have smt: "MaxTurns ?sc = 5" by (simp add: persistent_config_def)
  from C1_turn_budget [THEN conjunct2, THEN conjunct2, rule_format, OF sn srun srt [rule_format]]
  have "(\<exists>err. fst S = Inl err \<and> err \<noteq> ErrMaxTurnsExceeded \<and> model_calls (snd (snd S)) = 0) \<or>
         (\<exists>w2 gevs lerr.
            model_calls gevs = 0 \<and>
            runAgentExecutionLoop ?se (initial_state ?se 0 ''test input'' ?sc) (w2, gevs) =
              (Inl lerr, (fst (snd S), snd (snd S))) \<and>
            (lerr = ErrMaxTurnsExceeded \<longrightarrow> int (model_calls (snd (snd S))) = MaxTurns ?sc) \<and>
            fst S = (if errors_Is lerr ErrMaxTurnsExceeded then Inl ErrMaxTurnsExceeded
                     else Inl (Wrap ''agent execution error: '' lerr [])))"
    by simp
  then obtain sw2 sgevs slerr where
    slate: "runAgentExecutionLoop ?se (initial_state ?se 0 ''test input'' ?sc) (sw2, sgevs) =
              (Inl slerr, (fst (snd S), snd (snd S)))"
    and sne: "slerr = ErrMaxTurnsExceeded \<longrightarrow> int (model_calls (snd (snd S))) = MaxTurns ?sc"
    and sr: "fst S = (if errors_Is slerr ErrMaxTurnsExceeded then Inl ErrMaxTurnsExceeded
                     else Inl (Wrap ''agent execution error: '' slerr []))"
    using smc by auto
  have sne1: "slerr \<noteq> ErrMaxTurnsExceeded" using sne smc smt by auto
  have sis: "errors_Is slerr ErrMaxTurnsExceeded" using sr sres by (auto split: if_splits)
  have slate1: "\<exists>w2 gevs lerr.
        runAgentExecutionLoop ?se (initial_state ?se 0 ''test input'' ?sc) (w2, gevs) =
          (Inl lerr, (fst (snd S), snd (snd S))) \<and>
        lerr \<noteq> ErrMaxTurnsExceeded \<and> errors_Is lerr ErrMaxTurnsExceeded"
    using slate sne1 sis by blast
  show ?thesis
    apply (rule exI [of _ w1], rule exI [of _ log1])
    apply (rule exI [of _ "fst L"], rule exI [of _ "fst (snd L)"], rule exI [of _ "snd (snd L)"])
    apply (rule exI [of _ "fst R"], rule exI [of _ "fst (snd R)"], rule exI [of _ "snd (snd R)"])
    apply (rule exI [of _ "fst S"], rule exI [of _ "fst (snd S)"], rule exI [of _ "snd (snd S)"])
    apply (intro conjI)
    apply (rule p1 p2 p3 p4 p6 p7 a a3 n mt sc fo lp rt res mc n' run rt' res' mc' late1
        sn srun srt sres smc slate1)+
    done
qed

text \<open>
  The claim as stated fails when a turn is aborted: with a budget of five turns and a model
  that asks for the failing tool on every turn, the run ends after one call of the completion
  service with the error of the tool, not with \<^term>\<open>ErrMaxTurnsExceeded\<close>.
\<close>

theorem C1_failing_tool_aborts:
  "\<exists>res w log.
     RunWithConfig (test_env tooled_agent) 0 ''test input''
       (test_config (tool_call_outputs ''broken_tool'') 5) (0, []) = (res, (w, log)) \<and>
     (\<forall>ev\<in>set log. requests_tools ev) \<and>
     res = Inl (Wrap ''agent execution error: ''
                 (Wrap ''step 1 error: ''
                    (Wrap ''tool execution error: ''
                       (Wrap ''tool execution error: '' (ErrorString ''tool failed'') []) []) [])
                 []) \<and>
     res \<noteq> Inl ErrMaxTurnsExceeded \<and> model_calls log = 1"
proof -
  define R :: "(error + unit Result) \<times> nat world" where
    "R = RunWithConfig (test_env tooled_agent) 0 ''test input''
       (test_config (tool_call_outputs ''broken_tool'') 5) (0, [])"
  have run: "RunWithConfig (test_env tooled_agent) 0 ''test input''
       (test_config (tool_call_outputs ''broken_tool'') 5) (0, []) =
       (fst R, (fst (snd R), snd (snd R)))"
    by (simp add: R_def)
  have rt: "\<forall>ev\<in>set (snd (snd R)). requests_tools ev" unfolding R_def by code_simp
  have res: "fst R = Inl (Wrap ''agent execution error: ''
                 (Wrap ''step 1 error: ''
                    (Wrap ''tool execution error: ''
                       (Wrap ''tool execution error: '' (ErrorString ''tool failed'') []) []) [])
                 [])"
    unfolding R_def by code_simp
  then have ne: "fst R \<noteq> Inl ErrMaxTurnsExceeded" by simp
  have mc: "model_calls (snd (snd R)) = 1" unfolding R_def by code_simp
  from run rt res ne mc show ?thesis by blast
qed

section \<open>C2: a response without invocation requests\<close>

text \<open>
  Claim C2, as the code has it. In a turn below the turn budget whose response requests no
  invocation, the content of the response is the candidate final output. If the current agent
  declares an output type into which the content does not decode, the run ends there with
  that error (it wraps \<^term>\<open>ErrInvalidOutputFormat\<close>); if an output guardrail refuses or fails,
  the run ends there with that error. Otherwise the final output of the turn is what the
  output guardrails make of the content (the content itself when there are none). When it is
  not empty the loop stops at that turn, nothing more is recorded, and the run returns what
  the \<^verbatim>\<open>OnEnd\<close> hook of the current agent allows: its error when it fails (a panic when the
  agent has no hooks), else the result with that final output, the structured value, the
  current agent, and as history the messages of the run followed by the assistant message of
  the response. When it is empty, and the state holds no final output (as in every turn of
  a run), the loop does not stop: it goes on with the next turn, and fails with
  \<^term>\<open>ErrMaxTurnsExceeded\<close> when this was the last turn of the budget. With the
  input \<^verbatim>\<open>test\<close> and the first response \<^verbatim>\<open>first\<close> the run returns the final output \<^verbatim>\<open>first\<close>
  and a history of two messages, the user message and the assistant message.
\<close>

theorem C2_final_output:
  fixes e :: "('w, 'v) env" and res :: "error + 'v Result"
  shows
    "(stepCounter s < MaxTurns (config s) \<longrightarrow>
      runSingleTurn e s (w, log) = (r, (w1, log1)) \<longrightarrow>
      log1 = log @ EvModelCall msgs (Inr response) # evs \<longrightarrow>
      ToolCalls (resp_Message response) = [] \<longrightarrow>
      runAgentExecutionLoop e s (w, log) = (res, (w', log')) \<longrightarrow>
        (\<forall>err. parse_structured_output (heap e (currentAgent s))
                  (Content (resp_Message response)) = Inl err \<longrightarrow>
           res = Inl (Wrap (''step '' @ itoa_int (stepCounter s + 1) @ '' error: '') err []) \<and>
           log' = log1) \<and>
        (\<forall>structured. parse_structured_output (heap e (currentAgent s))
                  (Content (resp_Message response)) = Inr structured \<longrightarrow>
           (\<exists>w2 checked.
              check_output (heap e (currentAgent s)) (Content (resp_Message response))
                (w2, log @ [EvModelCall msgs (Inr response)]) = (checked, (w1, log1)) \<and>
              (\<forall>err. checked = Inl err \<longrightarrow>
                 res = Inl (Wrap (''step '' @ itoa_int (stepCounter s + 1) @ '' error: '') err []) \<and>
                 log' = log1) \<and>
              (\<forall>out. checked = Inr out \<longrightarrow> out \<noteq> [] \<longrightarrow>
                 (res, (w', log')) =
                   (case Hooks (heap e (currentAgent s)) of
                      None \<Rightarrow> (Inl nil_deref, (w1, log1))
                    | Some hk \<Rightarrow>
                       (case OnEnd hk (currentAgent s)
                               (case structured of Some v \<Rightarrow> Inr v | None \<Rightarrow> Inl out) w1 of
                          (Some err, w2) \<Rightarrow>
                            (Inl (Wrap ''error in OnEnd hook: '' err []), (w2, log1))
                        | (None, w2) \<Rightarrow>
                            (Inr \<lparr>FinalOutput = out, StructuredOutput = structured,
                                  LastAgent = currentAgent s,
                                  History = convertModelMessages
                                    (resultMessages s @ [resp_Message response]),
                                  res_Usage = accumulateUsage (usage s)
                                    (convertUsage (resp_Usage response))\<rparr>, (w2, log1))))) \<and>
              (checked = Inr [] \<longrightarrow> finalOutput s = [] \<longrightarrow>
                 (res, (w', log')) =
                   runAgentExecutionLoop e
                     (s\<lparr>messages := msgs @ [resp_Message response],
                        resultMessages := resultMessages s @ [resp_Message response],
                        usage := accumulateUsage (usage s) (convertUsage (resp_Usage response)),
                        stepCounter := stepCounter s + 1\<rparr>) (w1, log1) \<and>
                 (stepCounter s + 1 = MaxTurns (config s) \<longrightarrow>
                    res = Inl ErrMaxTurnsExceeded \<and> log' = log1))))) \<and>
     (OutputType a = None \<longrightarrow> parse_structured_output a content = Inr None) \<and>
     (OutputGuardrails a = [] \<longrightarrow> check_output a content wl = (Inr content, wl)) \<and>
     (\<exists>result wl.
        RunWithConfig (test_env testAgent) 0 ''test'' (test_config [GetTextMessage ''first''] 10)
          (0, []) = (Inr result, wl) \<and>
        FinalOutput result = ''first'' \<and> length (History result) = 2 \<and>
        map Role (History result) = [''user'', ''assistant''] \<and>
        map Content (History result) = [''test'', ''first''])"
proof -
  have scenario: "\<exists>result wl.
        RunWithConfig (test_env testAgent) 0 ''test'' (test_config [GetTextMessage ''first''] 10)
          (0, []) = (Inr result, wl) \<and>
        FinalOutput result = ''first'' \<and> length (History result) = 2 \<and>
        map Role (History result) = [''user'', ''assistant''] \<and>
        map Content (History result) = [''test'', ''first'']"
  proof -
    define R where "R = RunWithConfig (test_env testAgent) 0 ''test''
      (test_config [GetTextMessage ''first''] 10) (0, [])"
    have "\<not> isl (fst R)" unfolding R_def by code_simp
    then have "R = (Inr (projr (fst R)), snd R)" by (rule result_Inr)
    moreover have "FinalOutput (projr (fst R)) = ''first''" unfolding R_def by code_simp
    moreover have "length (History (projr (fst R))) = 2" unfolding R_def by code_simp
    moreover have "map Role (History (projr (fst R))) = [''user'', ''assistant'']"
      unfolding R_def by code_simp
    moreover have "map Content (History (projr (fst R))) = [''test'', ''first'']"
      unfolding R_def by code_simp
    ultimately show ?thesis unfolding R_def by metis
  qed
  have p: "OutputType a = None \<longrightarrow> parse_structured_output a content = Inr None"
    by (simp add: parse_structured_output_def)
  have c: "OutputGuardrails a = [] \<longrightarrow> check_output a content wl = (Inr content, wl)"
    by (simp add: check_output_def)
  have turn: "(\<forall>err. parse_structured_output (heap e (currentAgent s))
                  (Content (resp_Message response)) = Inl err \<longrightarrow>
           res = Inl (Wrap (''step '' @ itoa_int (stepCounter s + 1) @ '' error: '') err []) \<and>
           log' = log1) \<and>
        (\<forall>structured. parse_structured_output (heap e (currentAgent s))
                  (Content (resp_Message response)) = Inr structured \<longrightarrow>
           (\<exists>w2 checked.
              check_output (heap e (currentAgent s)) (Content (resp_Message response))
                (w2, log @ [EvModelCall msgs (Inr response)]) = (checked, (w1, log1)) \<and>
              (\<forall>err. checked = Inl err \<longrightarrow>
                 res = Inl (Wrap (''step '' @ itoa_int (stepCounter s + 1) @ '' error: '') err []) \<and>
                 log' = log1) \<and>
              (\<forall>out. checked = Inr out \<longrightarrow> out \<noteq> [] \<longrightarrow>
                 (res, (w', log')) =
                   (case Hooks (heap e (currentAgent s)) of
                      None \<Rightarrow> (Inl nil_deref, (w1, log1))
                    | Some hk \<Rightarrow>
                       (case OnEnd hk (currentAgent s)
                               (case structured of Some v \<Rightarrow> Inr v | None \<Rightarrow> Inl out) w1 of
                          (Some err, w2) \<Rightarrow>
                            (Inl (Wrap ''error in OnEnd hook: '' err []), (w2, log1))
                        | (None, w2) \<Rightarrow>
                            (Inr \<lparr>FinalOutput = out, StructuredOutput = structured,
                                  LastAgent = currentAgent s,
                                  History = convertModelMessages
                                    (resultMessages s @ [resp_Message response]),
                                  res_Usage = accumulateUsage (usage s)
                                    (convertUsage (resp_Usage response))\<rparr>, (w2, log1))))) \<and>
              (checked = Inr [] \<longrightarrow> finalOutput s = [] \<longrightarrow>
                 (res, (w', log')) =
                   runAgentExecutionLoop e
                     (s\<lparr>messages := msgs @ [resp_Message response],
                        resultMessages := resultMessages s @ [resp_Message response],
                        usage := accumulateUsage (usage s) (convertUsage (resp_Usage response)),
                        stepCounter := stepCounter s + 1\<rparr>) (w1, log1) \<and>
                 (stepCounter s + 1 = MaxTurns (config s) \<longrightarrow>
                    res = Inl ErrMaxTurnsExceeded \<and> log' = log1))))"
    if lt: "stepCounter s < MaxTurns (config s)"
      and t: "runSingleTurn e s (w, log) = (r, (w1, log1))"
      and l1: "log1 = log @ EvModelCall msgs (Inr response) # evs"
      and nt: "ToolCalls (resp_Message response) = []"
      and lp: "runAgentExecutionLoop e s (w, log) = (res, (w', log'))"
  proof -
    let ?a = "heap e (currentAgent s)"
    let ?content = "Content (resp_Message response)"
    let ?ev = "EvModelCall msgs (Inr response)"
    let ?step = "''step '' @ itoa_int (stepCounter s + 1) @ '' error: ''"
    let ?m = "resp_Message response"
    from runSingleTurn_final_event [OF t l1 nt] obtain w2 where
      ft: "(r, (w1, log1)) = final_turn e s msgs response (w2, log @ [?ev])"
      by blast
    have abort: "res = Inl (Wrap ?step err []) \<and> log' = log1" if "r = Inl err" for err
      using loop_turn_error [OF lt, of e "(w, log)" err "(w1, log1)"] t that lp by simp
    have first: "\<forall>err. parse_structured_output ?a ?content = Inl err \<longrightarrow>
           res = Inl (Wrap ?step err []) \<and> log' = log1"
    proof (intro allI impI)
      fix err assume "parse_structured_output ?a ?content = Inl err"
      then have "r = Inl err" using ft by (simp add: final_turn_def)
      then show "res = Inl (Wrap ?step err []) \<and> log' = log1" by (rule abort)
    qed
    have second: "\<exists>w2 checked.
              check_output ?a ?content (w2, log @ [?ev]) = (checked, (w1, log1)) \<and>
              (\<forall>err. checked = Inl err \<longrightarrow> res = Inl (Wrap ?step err []) \<and> log' = log1) \<and>
              (\<forall>out. checked = Inr out \<longrightarrow> out \<noteq> [] \<longrightarrow>
                 (res, (w', log')) =
                   (case Hooks ?a of
                      None \<Rightarrow> (Inl nil_deref, (w1, log1))
                    | Some hk \<Rightarrow>
                       (case OnEnd hk (currentAgent s)
                               (case structured of Some v \<Rightarrow> Inr v | None \<Rightarrow> Inl out) w1 of
                          (Some err, w2) \<Rightarrow>
                            (Inl (Wrap ''error in OnEnd hook: '' err []), (w2, log1))
                        | (None, w2) \<Rightarrow>
                            (Inr \<lparr>FinalOutput = out, StructuredOutput = structured,
                                  LastAgent = currentAgent s,
                                  History = convertModelMessages (resultMessages s @ [?m]),
                                  res_Usage = accumulateUsage (usage s)
                                    (convertUsage (resp_Usage response))\<rparr>, (w2, log1))))) \<and>
              (checked = Inr [] \<longrightarrow> finalOutput s = [] \<longrightarrow>
                 (res, (w', log')) =
                   runAgentExecutionLoop e
                     (s\<lparr>messages := msgs @ [?m],
                        resultMessages := resultMessages s @ [?m],
                        usage := accumulateUsage (usage s) (convertUsage (resp_Usage response)),
                        stepCounter := stepCounter s + 1\<rparr>) (w1, log1) \<and>
                 (stepCounter s + 1 = MaxTurns (config s) \<longrightarrow>
                    res = Inl ErrMaxTurnsExceeded \<and> log' = log1))"
      if ps: "parse_structured_output ?a ?content = Inr structured" for structured
    proof -
      obtain checked wlc where g0: "check_output ?a ?content (w2, log @ [?ev]) = (checked, wlc)"
        by (cases "check_output ?a ?content (w2, log @ [?ev])")
      have rr: "(r, (w1, log1)) =
          (case checked of
             Inl err \<Rightarrow> (Inl err, wlc)
           | Inr checkedOutput \<Rightarrow>
               (Inr (final_stepResult checkedOutput structured response,
                     usage_added (s\<lparr>messages := msgs\<rparr>) response), wlc))"
        using ft by (simp add: final_turn_def ps g0 split: sum.splits)
      have wlc: "wlc = (w1, log1)" using rr by (cases checked) simp_all
      have g: "check_output ?a ?content (w2, log @ [?ev]) = (checked, (w1, log1))"
        using g0 wlc by simp
      have e1: "\<forall>err. checked = Inl err \<longrightarrow> res = Inl (Wrap ?step err []) \<and> log' = log1"
      proof (intro allI impI)
        fix err assume "checked = Inl err"
        then have "r = Inl err" using rr by simp
        then show "res = Inl (Wrap ?step err []) \<and> log' = log1" by (rule abort)
      qed
      have ok: "runSingleTurn e s (w, log) =
          (Inr (final_stepResult out structured response,
                usage_added (s\<lparr>messages := msgs\<rparr>) response), (w1, log1))"
        if "checked = Inr out" for out
        using t rr that by simp
      let ?s1 = "usage_added (s\<lparr>messages := msgs\<rparr>) response"
      have e2: "\<forall>out. checked = Inr out \<longrightarrow> out \<noteq> [] \<longrightarrow>
                 (res, (w', log')) =
                   (case Hooks ?a of
                      None \<Rightarrow> (Inl nil_deref, (w1, log1))
                    | Some hk \<Rightarrow>
                       (case OnEnd hk (currentAgent s)
                               (case structured of Some v \<Rightarrow> Inr v | None \<Rightarrow> Inl out) w1 of
                          (Some err, w2) \<Rightarrow>
                            (Inl (Wrap ''error in OnEnd hook: '' err []), (w2, log1))
                        | (None, w2) \<Rightarrow>
                            (Inr \<lparr>FinalOutput = out, StructuredOutput = structured,
                                  LastAgent = currentAgent s,
                                  History = convertModelMessages (resultMessages s @ [?m]),
                                  res_Usage = accumulateUsage (usage s)
                                    (convertUsage (resp_Usage response))\<rparr>, (w2, log1))))"
      proof (intro allI impI)
        fix out assume co: "checked = Inr out" and ne: "out \<noteq> []"
        let ?sr = "final_stepResult out structured response"
        let ?s2 = "?s1\<lparr>messages := messages ?s1 @ sr_messages ?sr,
                 resultMessages := resultMessages ?s1 @ sr_messages ?sr,
                 finalOutput := sr_finalOutput ?sr,
                 structuredOutput := sr_structuredOutput ?sr\<rparr>"
        have "nextAgent ?sr = None" "sr_finalOutput ?sr \<noteq> []"
          using ne by (simp_all add: final_stepResult_def)
        from loop_final_output [OF lt ok [OF co] this]
        have en: "runAgentExecutionLoop_end e ?s2 (w1, log1) = (res, (w', log'))"
          using lp by simp
        have "finalOutput ?s2 \<noteq> []" using ne by (simp add: final_stepResult_def)
        from runAgentExecutionLoop_end_final [OF this, of e w1 log1] en
        show "(res, (w', log')) =
                   (case Hooks ?a of
                      None \<Rightarrow> (Inl nil_deref, (w1, log1))
                    | Some hk \<Rightarrow>
                       (case OnEnd hk (currentAgent s)
                               (case structured of Some v \<Rightarrow> Inr v | None \<Rightarrow> Inl out) w1 of
                          (Some err, w2) \<Rightarrow>
                            (Inl (Wrap ''error in OnEnd hook: '' err []), (w2, log1))
                        | (None, w2) \<Rightarrow>
                            (Inr \<lparr>FinalOutput = out, StructuredOutput = structured,
                                  LastAgent = currentAgent s,
                                  History = convertModelMessages (resultMessages s @ [?m]),
                                  res_Usage = accumulateUsage (usage s)
                                    (convertUsage (resp_Usage response))\<rparr>, (w2, log1))))"
          by (simp add: final_stepResult_def usage_added_def
              cong: option.case_cong prod.case_cong)
      qed
      have e3: "checked = Inr [] \<longrightarrow> finalOutput s = [] \<longrightarrow>
                 (res, (w', log')) =
                   runAgentExecutionLoop e
                     (s\<lparr>messages := msgs @ [?m],
                        resultMessages := resultMessages s @ [?m],
                        usage := accumulateUsage (usage s) (convertUsage (resp_Usage response)),
                        stepCounter := stepCounter s + 1\<rparr>) (w1, log1) \<and>
                 (stepCounter s + 1 = MaxTurns (config s) \<longrightarrow>
                    res = Inl ErrMaxTurnsExceeded \<and> log' = log1)"
      proof (intro impI)
        assume co: "checked = Inr []" and fo: "finalOutput s = []"
        let ?sr = "final_stepResult [] structured response"
        let ?s3 = "s\<lparr>messages := msgs @ [?m],
                        resultMessages := resultMessages s @ [?m],
                        usage := accumulateUsage (usage s) (convertUsage (resp_Usage response)),
                        stepCounter := stepCounter s + 1\<rparr>"
        have "nextAgent ?sr = None" "sr_finalOutput ?sr = []"
          by (simp_all add: final_stepResult_def)
        from loop_empty_output [OF lt fo ok [OF co] this]
        have "runAgentExecutionLoop e s (w, log) =
            runAgentExecutionLoop e
              (?s1\<lparr>messages := messages ?s1 @ sr_messages ?sr,
                   resultMessages := resultMessages ?s1 @ sr_messages ?sr,
                   stepCounter := stepCounter s + 1\<rparr>) (w1, log1)" .
        moreover have "?s1\<lparr>messages := messages ?s1 @ sr_messages ?sr,
                   resultMessages := resultMessages ?s1 @ sr_messages ?sr,
                   stepCounter := stepCounter s + 1\<rparr> = ?s3"
          by (simp add: final_stepResult_def usage_added_def)
        ultimately have eq: "(res, (w', log')) = runAgentExecutionLoop e ?s3 (w1, log1)"
          using lp by simp
        have last: "res = Inl ErrMaxTurnsExceeded \<and> log' = log1"
          if "stepCounter s + 1 = MaxTurns (config s)"
        proof -
          have "\<not> stepCounter ?s3 < MaxTurns (config ?s3)" using that by simp
          from loop_stop [OF this, of e "(w1, log1)"]
          have "runAgentExecutionLoop e ?s3 (w1, log1) = (Inl ErrMaxTurnsExceeded, (w1, log1))"
            using fo by (simp add: runAgentExecutionLoop_end_def)
          with eq show ?thesis by simp
        qed
        from eq last show "(res, (w', log')) = runAgentExecutionLoop e ?s3 (w1, log1) \<and>
                 (stepCounter s + 1 = MaxTurns (config s) \<longrightarrow>
                    res = Inl ErrMaxTurnsExceeded \<and> log' = log1)"
          by simp
      qed
      from g e1 e2 e3 show ?thesis by blast
    qed
    from first second show ?thesis by blast
  qed
  from turn p c scenario show ?thesis by (intro conjI impI) blast+
qed

theorem C2_final_output_witness:
  "(\<exists>r w1 log1 res w' log'.
     stepCounter first_state < MaxTurns (config first_state) \<and>
     runSingleTurn (test_env testAgent) first_state (0, []) = (r, (w1, log1)) \<and>
     log1 = [] @ EvModelCall (messages first_state) (Inr first_response) # [] \<and>
     ToolCalls (resp_Message first_response) = [] \<and>
     runAgentExecutionLoop (test_env testAgent) first_state (0, []) = (res, (w', log')) \<and>
     parse_structured_output (heap (test_env testAgent) (currentAgent first_state))
       (Content (resp_Message first_response)) = Inr None \<and>
     log' = log1 \<and>
     res = Inr \<lparr>FinalOutput = ''first'', StructuredOutput = None, LastAgent = 0,
                History = convertModelMessages
                  (resultMessages first_state @ [resp_Message first_response]),
                res_Usage = accumulateUsage (usage first_state)
                  (convertUsage (resp_Usage first_response))\<rparr>) \<and>
   (\<exists>r w1 log1 res w' log'.
     stepCounter hello_state < MaxTurns (config hello_state) \<and>
     runSingleTurn (test_env structured_agent) hello_state (0, []) = (r, (w1, log1)) \<and>
     log1 = [] @ EvModelCall (messages hello_state) (Inr hello_response) # [] \<and>
     ToolCalls (resp_Message hello_response) = [] \<and>
     runAgentExecutionLoop (test_env structured_agent) hello_state (0, []) = (res, (w', log')) \<and>
     parse_structured_output (heap (test_env structured_agent) (currentAgent hello_state))
       (Content (resp_Message hello_response)) =
       Inl (Wrap [] ErrInvalidOutputFormat
              '': invalid character looking for beginning of value'') \<and>
     res = Inl (Wrap ''step 1 error: ''
                 (Wrap [] ErrInvalidOutputFormat
                    '': invalid character looking for beginning of value'') [])) \<and>
   (\<exists>r w1 log1 res w' log'.
     stepCounter empty_state < MaxTurns (config empty_state) \<and>
     runSingleTurn (test_env testAgent) empty_state (0, []) = (r, (w1, log1)) \<and>
     log1 = [] @ EvModelCall (messages empty_state) (Inr empty_response) # [] \<and>
     ToolCalls (resp_Message empty_response) = [] \<and>
     runAgentExecutionLoop (test_env testAgent) empty_state (0, []) = (res, (w', log')) \<and>
     finalOutput empty_state = [] \<and> stepCounter empty_state + 1 = MaxTurns (config empty_state) \<and>
     res = Inl ErrMaxTurnsExceeded \<and> log' = log1)"
proof -
  have one: "\<exists>r w1 log1 res w' log'.
     stepCounter first_state < MaxTurns (config first_state) \<and>
     runSingleTurn (test_env testAgent) first_state (0, []) = (r, (w1, log1)) \<and>
     log1 = [] @ EvModelCall (messages first_state) (Inr first_response) # [] \<and>
     ToolCalls (resp_Message first_response) = [] \<and>
     runAgentExecutionLoop (test_env testAgent) first_state (0, []) = (res, (w', log')) \<and>
     parse_structured_output (heap (test_env testAgent) (currentAgent first_state))
       (Content (resp_Message first_response)) = Inr None \<and>
     log' = log1 \<and>
     res = Inr \<lparr>FinalOutput = ''first'', StructuredOutput = None, LastAgent = 0,
                History = convertModelMessages
                  (resultMessages first_state @ [resp_Message first_response]),
                res_Usage = accumulateUsage (usage first_state)
                  (convertUsage (resp_Usage first_response))\<rparr>"
  proof -
    let ?e = "test_env testAgent"
    let ?a = "heap ?e (currentAgent first_state)"
    define T where "T = runSingleTurn ?e first_state (0, [])"
    define L where "L = runAgentExecutionLoop ?e first_state (0, [])"
    have t: "runSingleTurn ?e first_state (0, []) = (fst T, (fst (snd T), snd (snd T)))"
      by (simp add: T_def)
    have lt: "stepCounter first_state < MaxTurns (config first_state)"
      by (simp add: first_state_def initial_state_def test_config_def)
    have l1: "snd (snd T) = [] @ EvModelCall (messages first_state) (Inr first_response) # []"
      unfolding T_def by code_simp
    have nt: "ToolCalls (resp_Message first_response) = []"
      by (simp add: first_response_def GetTextMessage_def mk_Message_def)
    have lp: "runAgentExecutionLoop ?e first_state (0, []) = (fst L, (fst (snd L), snd (snd L)))"
      by (simp add: L_def)
    have ot: "OutputType ?a = None" and ng: "OutputGuardrails ?a = []"
      and hk: "Hooks ?a = Some BaseAgentHooks"
      by (simp_all add: test_env_def testAgent_def New_def)
    have ps: "parse_structured_output ?a (Content (resp_Message first_response)) = Inr None"
      using ot by (simp add: parse_structured_output_def)
    have ct: "Content (resp_Message first_response) = ''first''"
      by (simp add: first_response_def GetTextMessage_def mk_Message_def)
    have ca: "currentAgent first_state = 0" by (simp add: first_state_def initial_state_def)
    note c = C2_final_output [THEN conjunct1, rule_format, OF lt t l1 nt lp]
    from c ps obtain w2 checked where
      g: "check_output ?a (Content (resp_Message first_response))
            (w2, [] @ [EvModelCall (messages first_state) (Inr first_response)]) =
          (checked, (fst (snd T), snd (snd T)))"
      and f: "\<And>out. checked = Inr out \<Longrightarrow> out \<noteq> [] \<Longrightarrow>
        (fst L, (fst (snd L), snd (snd L))) =
          (case Hooks ?a of
             None \<Rightarrow> (Inl nil_deref, (fst (snd T), snd (snd T)))
           | Some hk \<Rightarrow>
              (case OnEnd hk (currentAgent first_state)
                      (case None of Some v \<Rightarrow> Inr v | None \<Rightarrow> Inl out) (fst (snd T)) of
                 (Some err, w2) \<Rightarrow>
                   (Inl (Wrap ''error in OnEnd hook: '' err []), (w2, snd (snd T)))
               | (None, w2) \<Rightarrow>
                   (Inr \<lparr>FinalOutput = out, StructuredOutput = None,
                         LastAgent = currentAgent first_state,
                         History = convertModelMessages
                           (resultMessages first_state @ [resp_Message first_response]),
                         res_Usage = accumulateUsage (usage first_state)
                           (convertUsage (resp_Usage first_response))\<rparr>, (w2, snd (snd T)))))"
      by blast
    have "checked = Inr ''first''" using g ng ct by (simp add: check_output_def)
    from f [OF this] have "(fst L, (fst (snd L), snd (snd L))) =
        (Inr \<lparr>FinalOutput = ''first'', StructuredOutput = None, LastAgent = 0,
              History = convertModelMessages
                (resultMessages first_state @ [resp_Message first_response]),
              res_Usage = accumulateUsage (usage first_state)
                (convertUsage (resp_Usage first_response))\<rparr>, (fst (snd T), snd (snd T)))"
      using hk by (simp add: BaseAgentHooks_def ca [symmetric])
    then have "snd (snd L) = snd (snd T)"
      "fst L = Inr \<lparr>FinalOutput = ''first'', StructuredOutput = None, LastAgent = 0,
              History = convertModelMessages
                (resultMessages first_state @ [resp_Message first_response]),
              res_Usage = accumulateUsage (usage first_state)
                (convertUsage (resp_Usage first_response))\<rparr>"
      by simp_all
    with lt t l1 nt lp ps show ?thesis by blast
  qed
  have two: "\<exists>r w1 log1 res w' log'.
     stepCounter hello_state < MaxTurns (config hello_state) \<and>
     runSingleTurn (test_env structured_agent) hello_state (0, []) = (r, (w1, log1)) \<and>
     log1 = [] @ EvModelCall (messages hello_state) (Inr hello_response) # [] \<and>
     ToolCalls (resp_Message hello_response) = [] \<and>
     runAgentExecutionLoop (test_env structured_agent) hello_state (0, []) = (res, (w', log')) \<and>
     parse_structured_output (heap (test_env structured_agent) (currentAgent hello_state))
       (Content (resp_Message hello_response)) =
       Inl (Wrap [] ErrInvalidOutputFormat
              '': invalid character looking for beginning of value'') \<and>
     res = Inl (Wrap ''step 1 error: ''
                 (Wrap [] ErrInvalidOutputFormat
                    '': invalid character looking for beginning of value'') [])"
  proof -
    let ?e = "test_env structured_agent"
    let ?a = "heap ?e (currentAgent hello_state)"
    define T where "T = runSingleTurn ?e hello_state (0, [])"
    define L where "L = runAgentExecutionLoop ?e hello_state (0, [])"
    have t: "runSingleTurn ?e hello_state (0, []) = (fst T, (fst (snd T), snd (snd T)))"
      by (simp add: T_def)
    have lt: "stepCounter hello_state < MaxTurns (config hello_state)"
      by (simp add: hello_state_def initial_state_def test_config_def)
    have l1: "snd (snd T) = [] @ EvModelCall (messages hello_state) (Inr hello_response) # []"
      unfolding T_def by code_simp
    have nt: "ToolCalls (resp_Message hello_response) = []"
      by (simp add: hello_response_def GetTextMessage_def mk_Message_def)
    have lp: "runAgentExecutionLoop ?e hello_state (0, []) = (fst L, (fst (snd L), snd (snd L)))"
      by (simp add: L_def)
    have ps: "parse_structured_output ?a (Content (resp_Message hello_response)) =
       Inl (Wrap [] ErrInvalidOutputFormat
              '': invalid character looking for beginning of value'')"
      by (simp add: parse_structured_output_def test_env_def structured_agent_def New_def
          unmarshal_TestOutputStruct_def hello_response_def GetTextMessage_def mk_Message_def
          bar_json_def)
    have sc: "stepCounter hello_state + 1 = 1"
      by (simp add: hello_state_def initial_state_def)
    have it: "itoa_int 1 = ''1''" by code_simp
    note c = C2_final_output [THEN conjunct1, rule_format, OF lt t l1 nt lp]
    from c ps have "fst L = Inl (Wrap (''step '' @ itoa_int (stepCounter hello_state + 1) @
        '' error: '') (Wrap [] ErrInvalidOutputFormat
              '': invalid character looking for beginning of value'') [])"
      by blast
    then have "fst L = Inl (Wrap ''step 1 error: ''
                 (Wrap [] ErrInvalidOutputFormat
                    '': invalid character looking for beginning of value'') [])"
      by (simp add: sc it)
    with lt t l1 nt lp ps show ?thesis by blast
  qed
  have three: "\<exists>r w1 log1 res w' log'.
     stepCounter empty_state < MaxTurns (config empty_state) \<and>
     runSingleTurn (test_env testAgent) empty_state (0, []) = (r, (w1, log1)) \<and>
     log1 = [] @ EvModelCall (messages empty_state) (Inr empty_response) # [] \<and>
     ToolCalls (resp_Message empty_response) = [] \<and>
     runAgentExecutionLoop (test_env testAgent) empty_state (0, []) = (res, (w', log')) \<and>
     finalOutput empty_state = [] \<and> stepCounter empty_state + 1 = MaxTurns (config empty_state) \<and>
     res = Inl ErrMaxTurnsExceeded \<and> log' = log1"
  proof -
    let ?e = "test_env testAgent"
    let ?a = "heap ?e (currentAgent empty_state)"
    define T where "T = runSingleTurn ?e empty_state (0, [])"
    define L where "L = runAgentExecutionLoop ?e empty_state (0, [])"
    have t: "runSingleTurn ?e empty_state (0, []) = (fst T, (fst (snd T), snd (snd T)))"
      by (simp add: T_def)
    have lt: "stepCounter empty_state < MaxTurns (config empty_state)"
      by (simp add: empty_state_def initial_state_def test_config_def)
    have l1: "snd (snd T) = [] @ EvModelCall (messages empty_state) (Inr empty_response) # []"
      unfolding T_def by code_simp
    have nt: "ToolCalls (resp_Message empty_response) = []"
      by (simp add: empty_response_def GetTextMessage_def mk_Message_def)
    have lp: "runAgentExecutionLoop ?e empty_state (0, []) = (fst L, (fst (snd L), snd (snd L)))"
      by (simp add: L_def)
    have ot: "OutputType ?a = None" and ng: "OutputGuardrails ?a = []"
      by (simp_all add: test_env_def testAgent_def New_def)
    have ps: "parse_structured_output ?a (Content (resp_Message empty_response)) = Inr None"
      using ot by (simp add: parse_structured_output_def)
    have ct: "Content (resp_Message empty_response) = []"
      by (simp add: empty_response_def GetTextMessage_def mk_Message_def)
    have fo: "finalOutput empty_state = []" by (simp add: empty_state_def initial_state_def)
    have lst: "stepCounter empty_state + 1 = MaxTurns (config empty_state)"
      by (simp add: empty_state_def initial_state_def test_config_def)
    note c = C2_final_output [THEN conjunct1, rule_format, OF lt t l1 nt lp]
    from c ps obtain w2 checked where
      g: "check_output ?a (Content (resp_Message empty_response))
            (w2, [] @ [EvModelCall (messages empty_state) (Inr empty_response)]) =
          (checked, (fst (snd T), snd (snd T)))"
      and f: "checked = Inr [] \<Longrightarrow> finalOutput empty_state = [] \<Longrightarrow>
          stepCounter empty_state + 1 = MaxTurns (config empty_state) \<Longrightarrow>
            fst L = Inl ErrMaxTurnsExceeded \<and> snd (snd L) = snd (snd T)"
      by blast
    have "checked = Inr []" using g ng ct by (simp add: check_output_def)
    from f [OF this fo lst] lt t l1 nt lp fo lst show ?thesis by blast
  qed
  from one two three show ?thesis by (intro conjI)
qed

text \<open>
  The claim as stated fails for a response without invocation requests whose content is
  empty: the loop does not stop at that turn. With a budget of one turn the run fails with
  \<^term>\<open>ErrMaxTurnsExceeded\<close>; with a larger one the completion service is called again and the
  run ends with the second response.
\<close>

theorem C2_empty_content_continues:
  "ToolCalls (GetTextMessage []) = [] \<and>
   fst (RunWithConfig (test_env testAgent) 0 ''test'' (test_config [GetTextMessage []] 1) (0, [])) =
     Inl ErrMaxTurnsExceeded \<and>
   (\<exists>result w log.
      RunWithConfig (test_env testAgent) 0 ''test''
        (test_config [GetTextMessage [], GetTextMessage ''second''] 10) (0, []) =
        (Inr result, (w, log)) \<and>
      FinalOutput result = ''second'' \<and> model_calls log = 2 \<and> length (History result) = 3)"
proof -
  define R where "R = RunWithConfig (test_env testAgent) 0 ''test''
        (test_config [GetTextMessage [], GetTextMessage ''second''] 10) (0, [])"
  have "\<not> isl (fst R)" unfolding R_def by code_simp
  then have "R = (Inr (projr (fst R)), snd R)" by (rule result_Inr)
  then have "R = (Inr (projr (fst R)), (fst (snd R), snd (snd R)))" by simp
  moreover have "FinalOutput (projr (fst R)) = ''second''" unfolding R_def by code_simp
  moreover have "model_calls (snd (snd R)) = 2" unfolding R_def by code_simp
  moreover have "length (History (projr (fst R))) = 3" unfolding R_def by code_simp
  ultimately have 1: "\<exists>result w log.
      RunWithConfig (test_env testAgent) 0 ''test''
        (test_config [GetTextMessage [], GetTextMessage ''second''] 10) (0, []) =
        (Inr result, (w, log)) \<and>
      FinalOutput result = ''second'' \<and> model_calls log = 2 \<and> length (History result) = 3"
    unfolding R_def by metis
  have 2: "ToolCalls (GetTextMessage []) = []"
    by (simp add: GetTextMessage_def mk_Message_def)
  have 3: "fst (RunWithConfig (test_env testAgent) 0 ''test''
      (test_config [GetTextMessage []] 1) (0, [])) = (Inl ErrMaxTurnsExceeded :: error + unit Result)"
    by code_simp
  show ?thesis by (intro conjI) (rule 1 2 3)+
qed

section \<open>C3: input guardrails\<close>

text \<open>
  Claim C3. The input guardrails are checked by calling \<^term>\<open>ig_Check\<close> of each guardrail of the
  starting agent on the raw input, in their order: the loop over a list is the loop over its
  first part followed by the loop over the rest, and one step calls the guardrail on the
  input, goes on when it allows and stops with \<^term>\<open>ErrGuardrailTripwire\<close> followed by its
  message when it does not. In a run they are checked first and each at most once: the log
  starts with the checks, the one at position \<open>j\<close> being the answer of the \<open>j\<close>-th guardrail
  of the starting agent to the raw input, and nothing else happens unless every one of them
  was checked. If one of them answers that the input is not allowed, the run fails with
  \<^term>\<open>ErrGuardrailTripwire\<close> followed by the message of that guardrail, its check is the last
  event of the run, and the completion service is never called. Conversely, for an agent with
  instructions and a configuration with a model provider: when the guardrails before one
  allow the input and that one refuses it, the run is exactly this failure.
\<close>

theorem C3_input_guardrail_short_circuit:
  fixes e :: "('w, 'v) env" and res :: "error + 'v Result"
  shows
    "(RunWithConfig e a input cfg (w, []) = (res, (w', log)) \<longrightarrow>
        (\<exists>k\<le>length (InputGuardrails (heap e a)). k \<le> length log \<and>
            (\<forall>j<k. \<exists>x. log ! j = EvInputGuardrail j input x) \<and>
            (\<forall>j. k \<le> j \<longrightarrow> j < length log \<longrightarrow> \<not> is_input_guardrail (log ! j)) \<and>
            (k < length log \<longrightarrow> k = length (InputGuardrails (heap e a)))) \<and>
        (\<forall>i checked x.
            EvInputGuardrail i checked x \<in> set log \<longrightarrow>
              i < length (InputGuardrails (heap e a)) \<and> checked = input \<and>
              log ! i = EvInputGuardrail i checked x \<and>
              (\<exists>wa wb. ig_Check (InputGuardrails (heap e a) ! i) input wa = (x, wb))) \<and>
        (\<forall>i checked result.
            EvInputGuardrail i checked (Inr result) \<in> set log \<longrightarrow> \<not> ig_Allowed result \<longrightarrow>
              res = Inl (Wrap [] ErrGuardrailTripwire ('': '' @ ig_Message result)) \<and>
              model_calls log = 0 \<and> checked = input \<and> length log = Suc i)) \<and>
     applyInputGuardrails_loop n (g # gs) input (w, log0) =
       (case ig_Check g input w of
          (Inl err, w1) \<Rightarrow>
            (Some (Wrap ''input guardrail error: '' err []),
             (w1, log0 @ [EvInputGuardrail n input (Inl err)]))
        | (Inr result, w1) \<Rightarrow>
            if ig_Allowed result
            then applyInputGuardrails_loop (Suc n) gs input
                   (w1, log0 @ [EvInputGuardrail n input (Inr result)])
            else (Some (Wrap [] ErrGuardrailTripwire ('': '' @ ig_Message result)),
                  (w1, log0 @ [EvInputGuardrail n input (Inr result)]))) \<and>
     applyInputGuardrails_loop n (gs1 @ gs2) input wl =
       (case applyInputGuardrails_loop n gs1 input wl of
          (Some err, wl1) \<Rightarrow> (Some err, wl1)
        | (None, wl1) \<Rightarrow> applyInputGuardrails_loop (n + length gs1) gs2 input wl1) \<and>
     (Instructions (heap e a) \<noteq> [] \<longrightarrow> ModelProvider cfg \<noteq> None \<longrightarrow>
      InputGuardrails (heap e a) = pre @ g # post \<longrightarrow>
      applyInputGuardrails_loop 0 pre input (w, []) = (None, (w1, log1)) \<longrightarrow>
      ig_Check g input w1 = (Inr refused, w2) \<longrightarrow> \<not> ig_Allowed refused \<longrightarrow>
        RunWithConfig e a input cfg (w, []) =
          (Inl (Wrap [] ErrGuardrailTripwire ('': '' @ ig_Message refused)) :: error + 'v Result,
           (w2, log1 @ [EvInputGuardrail (length pre) input (Inr refused)])) \<and>
        length log1 = length pre \<and>
        model_calls (log1 @ [EvInputGuardrail (length pre) input (Inr refused)]) = 0) \<and>
     ((\<forall>g'\<in>set pre. \<forall>wa. \<exists>result wb. ig_Check g' input wa = (Inr result, wb) \<and> ig_Allowed result) \<longrightarrow>
        (\<exists>w1 log1. applyInputGuardrails_loop 0 pre input (w, []) = (None, (w1, log1)) \<and>
           length log1 = length pre))"
proof -
  let ?gs = "InputGuardrails (heap e a)"
  have run_part:
    "(\<exists>k\<le>length ?gs. k \<le> length log \<and>
            (\<forall>j<k. \<exists>x. log ! j = EvInputGuardrail j input x) \<and>
            (\<forall>j. k \<le> j \<longrightarrow> j < length log \<longrightarrow> \<not> is_input_guardrail (log ! j)) \<and>
            (k < length log \<longrightarrow> k = length ?gs)) \<and>
        (\<forall>i checked x.
            EvInputGuardrail i checked x \<in> set log \<longrightarrow>
              i < length ?gs \<and> checked = input \<and>
              log ! i = EvInputGuardrail i checked x \<and>
              (\<exists>wa wb. ig_Check (?gs ! i) input wa = (x, wb))) \<and>
        (\<forall>i checked result.
            EvInputGuardrail i checked (Inr result) \<in> set log \<longrightarrow> \<not> ig_Allowed result \<longrightarrow>
              res = Inl (Wrap [] ErrGuardrailTripwire ('': '' @ ig_Message result)) \<and>
              model_calls log = 0 \<and> checked = input \<and> length log = Suc i)"
    if run: "RunWithConfig e a input cfg (w, []) = (res, (w', log))"
  proof -
    from RunWithConfig_trace [OF run] obtain gevs tevs where
      l: "log = gevs @ tevs"
      and len: "length gevs \<le> length ?gs"
      and sh: "\<forall>j<length gevs. \<exists>x. gevs ! j = EvInputGuardrail j input x"
      and ok: "\<forall>j. Suc j < length gevs \<longrightarrow> event_failure (gevs ! j) = None"
      and trip: "\<forall>err. gevs \<noteq> [] \<and> event_failure (last gevs) = Some err \<longrightarrow> tevs = [] \<and> res = Inl err"
      and full: "tevs \<noteq> [] \<longrightarrow> length gevs = length ?gs"
      and noin: "\<forall>ev\<in>set tevs. \<not> is_input_guardrail ev"
      by auto
    have first: "\<exists>k\<le>length ?gs. k \<le> length log \<and>
            (\<forall>j<k. \<exists>x. log ! j = EvInputGuardrail j input x) \<and>
            (\<forall>j. k \<le> j \<longrightarrow> j < length log \<longrightarrow> \<not> is_input_guardrail (log ! j)) \<and>
            (k < length log \<longrightarrow> k = length ?gs)"
    proof (intro exI [of _ "length gevs"] conjI)
      show "length gevs \<le> length ?gs" by (rule len)
      show "length gevs \<le> length log" using l by simp
      show "\<forall>j<length gevs. \<exists>x. log ! j = EvInputGuardrail j input x"
        using sh l by (simp add: nth_append)
      show "\<forall>j. length gevs \<le> j \<longrightarrow> j < length log \<longrightarrow> \<not> is_input_guardrail (log ! j)"
        using noin l by (auto simp: nth_append)
      show "length gevs < length log \<longrightarrow> length gevs = length ?gs"
        using full l by auto
    qed
    have ingevs: "\<exists>j<length gevs. gevs ! j = EvInputGuardrail i checked x \<and> i = j \<and>
        checked = input"
      if m: "EvInputGuardrail i checked x \<in> set log" for i checked x
    proof -
      have "EvInputGuardrail i checked x \<notin> set tevs" using noin by force
      then have "EvInputGuardrail i checked x \<in> set gevs" using m l by simp
      then obtain j where j: "j < length gevs" "gevs ! j = EvInputGuardrail i checked x"
        by (auto simp: in_set_conv_nth)
      with sh have "i = j" "checked = input" by fastforce+
      with j show ?thesis by blast
    qed
    have link: "\<forall>i checked x.
            EvInputGuardrail i checked x \<in> set log \<longrightarrow>
              i < length ?gs \<and> checked = input \<and>
              log ! i = EvInputGuardrail i checked x \<and>
              (\<exists>wa wb. ig_Check (?gs ! i) input wa = (x, wb))"
    proof (intro allI impI)
      fix i checked x
      assume m: "EvInputGuardrail i checked x \<in> set log"
      from ingevs [OF m] have j: "i < length gevs" "gevs ! i = EvInputGuardrail i checked x"
        and ci: "checked = input"
        by auto
      from RunWithConfig_guardrail_log [OF run] obtain gevs' tevs' where
        l': "log = [] @ gevs' @ tevs'" and noin': "\<forall>ev\<in>set tevs'. \<not> is_input_guardrail ev"
        and lp: "gevs' = [] \<or>
            (\<exists>r1 w1. applyInputGuardrails_loop 0 ?gs input (w, []) = (r1, (w1, [] @ gevs')))"
        by blast
      have "EvInputGuardrail i checked x \<notin> set tevs'" using noin' by force
      then have mg: "EvInputGuardrail i checked x \<in> set gevs'" using m l' by simp
      then have "gevs' \<noteq> []" by auto
      with lp obtain r1 w1 where
        "applyInputGuardrails_loop 0 ?gs input (w, []) = (r1, (w1, [] @ gevs'))"
        by blast
      from applyInputGuardrails_loop_checks [OF this] obtain evs where
        "[] @ gevs' = [] @ evs" and n: "length evs \<le> length ?gs"
        and k: "\<forall>j<length evs. \<exists>x wa wb. evs ! j = EvInputGuardrail (0 + j) input x \<and>
            ig_Check (?gs ! j) input wa = (x, wb)"
        by blast
      then have ee: "evs = gevs'" by simp
      from mg obtain j where jj: "j < length gevs'" "gevs' ! j = EvInputGuardrail i checked x"
        by (auto simp: in_set_conv_nth)
      with k ee obtain x' wa wb where
        "gevs' ! j = EvInputGuardrail (0 + j) input x'" "ig_Check (?gs ! j) input wa = (x', wb)"
        by blast
      with jj have "i = j" "x' = x" by simp_all
      with \<open>ig_Check (?gs ! j) input wa = (x', wb)\<close>
      have chk: "\<exists>wa wb. ig_Check (?gs ! i) input wa = (x, wb)" by blast
      have "i < length ?gs" using jj(1) n ee \<open>i = j\<close> by simp
      moreover have "log ! i = EvInputGuardrail i checked x"
        using j l by (simp add: nth_append)
      ultimately show "i < length ?gs \<and> checked = input \<and>
              log ! i = EvInputGuardrail i checked x \<and>
              (\<exists>wa wb. ig_Check (?gs ! i) input wa = (x, wb))"
        using ci chk by simp
    qed
    have second: "\<forall>i checked result.
            EvInputGuardrail i checked (Inr result) \<in> set log \<longrightarrow> \<not> ig_Allowed result \<longrightarrow>
              res = Inl (Wrap [] ErrGuardrailTripwire ('': '' @ ig_Message result)) \<and>
              model_calls log = 0 \<and> checked = input \<and> length log = Suc i"
    proof (intro allI impI)
      fix i checked result
      assume m: "EvInputGuardrail i checked (Inr result) \<in> set log" and d: "\<not> ig_Allowed result"
      from ingevs [OF m] have j: "i < length gevs"
        "gevs ! i = EvInputGuardrail i checked (Inr result)" and ci: "checked = input"
        by auto
      have f: "event_failure (gevs ! i) =
          Some (Wrap [] ErrGuardrailTripwire ('': '' @ ig_Message result))"
        using j(2) d by simp
      then have "\<not> Suc i < length gevs" using ok by fastforce
      then have sj: "Suc i = length gevs" using j(1) by simp
      have ne: "gevs \<noteq> []" using j(1) by auto
      have "last gevs = gevs ! (length gevs - 1)" using ne by (rule last_conv_nth)
      then have "last gevs = gevs ! i" using sj by (metis diff_Suc_1)
      note this ne
      with trip f have t: "tevs = []"
        "res = Inl (Wrap [] ErrGuardrailTripwire ('': '' @ ig_Message result))"
        by auto
      have "model_calls log = 0"
        using l t(1) sh by (simp add: model_calls_input_guardrails)
      then show "res = Inl (Wrap [] ErrGuardrailTripwire ('': '' @ ig_Message result)) \<and>
              model_calls log = 0 \<and> checked = input \<and> length log = Suc i"
        using t l sj ci by simp
    qed
    from first link second show ?thesis by (intro conjI)
  qed
  have forward: "RunWithConfig e a input cfg (w, []) =
          (Inl (Wrap [] ErrGuardrailTripwire ('': '' @ ig_Message refused)) :: error + 'v Result,
           (w2, log1 @ [EvInputGuardrail (length pre) input (Inr refused)])) \<and>
        length log1 = length pre \<and>
        model_calls (log1 @ [EvInputGuardrail (length pre) input (Inr refused)]) = 0"
    if i: "Instructions (heap e a) \<noteq> []" and mp: "ModelProvider cfg \<noteq> None"
      and gs: "?gs = pre @ g # post"
      and p: "applyInputGuardrails_loop 0 pre input (w, []) = (None, (w1, log1))"
      and c: "ig_Check g input w1 = (Inr refused, w2)" and r: "\<not> ig_Allowed refused"
  proof -
    from applyInputGuardrails_loop_shape [OF p] have n: "length log1 = length pre"
      and sh: "\<forall>j<length log1. \<exists>x. log1 ! j = EvInputGuardrail (0 + j) input x"
      by auto
    have "model_calls log1 = 0" using sh by (simp add: model_calls_input_guardrails)
    then have "model_calls (log1 @ [EvInputGuardrail (length pre) input (Inr refused)]) = 0"
      by simp
    with RunWithConfig_refused [OF i mp gs p c r] n show ?thesis by simp
  qed
  have allow: "\<exists>w1 log1. applyInputGuardrails_loop 0 pre input (w, []) = (None, (w1, log1)) \<and>
           length log1 = length pre"
    if "\<forall>g'\<in>set pre. \<forall>wa. \<exists>result wb. ig_Check g' input wa = (Inr result, wb) \<and> ig_Allowed result"
    using applyInputGuardrails_loop_allow [OF that, of 0 w "[]"] by auto
  show ?thesis
    using run_part forward allow applyInputGuardrails_loop_step [of n g gs input w log0]
      applyInputGuardrails_loop_append [of n gs1 gs2 input wl]
    by (intro conjI impI) blast+
qed

theorem C3_input_guardrail_short_circuit_witness:
  "\<exists>res w' log w1 log1 w2.
     RunWithConfig (test_env twoGuardedAgent) 0 ''bad input''
       (test_config [GetTextMessage ''response''] 10) (0, []) = (res, (w', log)) \<and>
     EvInputGuardrail 1 ''bad input'' (Inr refused_result) \<in> set log \<and>
     \<not> ig_Allowed refused_result \<and>
     res = Inl (Wrap [] ErrGuardrailTripwire '': Input not allowed'') \<and>
     model_calls log = 0 \<and> length log = 2 \<and>
     (\<exists>wa wb. ig_Check (InputGuardrails (heap (test_env twoGuardedAgent) 0) ! 1) ''bad input'' wa =
                (Inr refused_result, wb)) \<and>
     Instructions (heap (test_env twoGuardedAgent) 0) \<noteq> [] \<and>
     ModelProvider (test_config [GetTextMessage ''response''] 10) \<noteq> None \<and>
     InputGuardrails (heap (test_env twoGuardedAgent) 0) =
       [nonempty_guardrail] @ bad_input_blocker # [] \<and>
     applyInputGuardrails_loop 0 [nonempty_guardrail] ''bad input'' (0, []) = (None, (w1, log1)) \<and>
     ig_Check bad_input_blocker ''bad input'' w1 = (Inr refused_result, w2) \<and>
     (res, (w', log)) =
       (Inl (Wrap [] ErrGuardrailTripwire ('': '' @ ig_Message refused_result)),
        (w2, log1 @ [EvInputGuardrail (length [nonempty_guardrail]) ''bad input''
                       (Inr refused_result)]))"
proof -
  let ?e = "test_env twoGuardedAgent"
  let ?cfg = "test_config [GetTextMessage ''response''] 10"
  define R :: "(error + unit Result) \<times> nat world" where
    "R = RunWithConfig ?e 0 ''bad input'' ?cfg (0, [])"
  have run: "RunWithConfig ?e 0 ''bad input'' ?cfg (0, []) = (fst R, (fst (snd R), snd (snd R)))"
    by (simp add: R_def)
  have mem: "EvInputGuardrail 1 ''bad input'' (Inr refused_result) \<in> set (snd (snd R))"
    unfolding R_def by code_simp
  have na: "\<not> ig_Allowed refused_result" by (simp add: refused_result_def)
  note r = C3_input_guardrail_short_circuit [THEN conjunct1, rule_format, OF run]
  from r mem na have t: "fst R = Inl (Wrap [] ErrGuardrailTripwire ('': '' @ ig_Message refused_result))"
    "model_calls (snd (snd R)) = 0" "length (snd (snd R)) = Suc 1"
    by blast+
  from r mem have chk: "\<exists>wa wb. ig_Check (InputGuardrails (heap ?e 0) ! 1) ''bad input'' wa =
                (Inr refused_result, wb)"
    by blast
  have res: "fst R = Inl (Wrap [] ErrGuardrailTripwire '': Input not allowed'')"
    using t(1) by (simp add: refused_result_def)
  have len: "length (snd (snd R)) = 2" using t(3) by simp
  have i: "Instructions (heap ?e 0) \<noteq> []"
    by (simp add: test_env_def twoGuardedAgent_def New_def)
  have mp: "ModelProvider ?cfg \<noteq> None" by (simp add: test_config_def)
  have gs: "InputGuardrails (heap ?e 0) = [nonempty_guardrail] @ bad_input_blocker # []"
    by (simp add: test_env_def twoGuardedAgent_def New_def)
  have al: "\<forall>g'\<in>set [nonempty_guardrail]. \<forall>wa. \<exists>result wb.
      ig_Check g' ''bad input'' wa = (Inr result, wb) \<and> ig_Allowed result"
    by (simp add: nonempty_guardrail_def)
  from C3_input_guardrail_short_circuit [THEN conjunct2, THEN conjunct2, THEN conjunct2,
      THEN conjunct2, rule_format, OF al [rule_format]]
  obtain w1 log1 where
    p: "applyInputGuardrails_loop 0 [nonempty_guardrail] ''bad input'' (0, []) = (None, (w1, log1))"
    by blast
  have c: "ig_Check bad_input_blocker ''bad input'' w1 = (Inr refused_result, w1)"
    by (simp add: bad_input_blocker_def refused_result_def)
  from C3_input_guardrail_short_circuit [THEN conjunct2, THEN conjunct2, THEN conjunct2,
      THEN conjunct1, rule_format, OF i mp gs p c na]
  have f: "RunWithConfig ?e 0 ''bad input'' ?cfg (0, []) =
          (Inl (Wrap [] ErrGuardrailTripwire ('': '' @ ig_Message refused_result)),
           (w1, log1 @ [EvInputGuardrail (length [nonempty_guardrail]) ''bad input''
                          (Inr refused_result)]))"
    by blast
  then have eq: "(fst R, (fst (snd R), snd (snd R))) =
       (Inl (Wrap [] ErrGuardrailTripwire ('': '' @ ig_Message refused_result)),
        (w1, log1 @ [EvInputGuardrail (length [nonempty_guardrail]) ''bad input''
                       (Inr refused_result)]))"
    using run by simp
  from run mem na res t(2) len chk i mp gs p c eq show ?thesis by blast
qed

section \<open>C4: transfer continuity\<close>

text \<open>
  Claim C4. After a transfer taken in a turn, the message buffer starts with one system
  message holding the instructions of the target agent (what \<open>GetSystemPrompt\<close> of the
  target returns), followed by all earlier non-system messages in their order (the
  assistant message of this turn included); it holds exactly one system message; the
  target is the current agent; the turn counter is unchanged by the transfer, and the
  loop goes on with the counter of this turn plus one.
\<close>

theorem C4_transfer_continuity:
  fixes e :: "('w, 'v) env"
  assumes "stepCounter s0 < MaxTurns (config s0)" and "finalOutput s0 = []"
    and "runSingleTurn e s0 wl0 = (Inr (sr, s), wl)"
    and "nextAgent sr = Some q"
    and "processStepResult e s sr wl = (Inr s', wl')"
  shows "\<exists>instructions w1 w2.
           GetSystemPrompt (heap e q) w1 = (Inr instructions, w2) \<and>
           messages s' = mk_Message ''system'' instructions #
             filter (\<lambda>msg. Role msg \<noteq> ''system'') (messages s @ sr_messages sr) \<and>
           length (filter (\<lambda>msg. Role msg = ''system'') (messages s')) = 1 \<and>
           currentAgent s' = q \<and>
           stepCounter s' = stepCounter s0 \<and>
           runAgentExecutionLoop e s0 wl0 =
             runAgentExecutionLoop e (s'\<lparr>stepCounter := stepCounter s0 + 1\<rparr>) wl'"
proof -
  let ?s1 = "s\<lparr>messages := messages s @ sr_messages sr,
               resultMessages := resultMessages s @ sr_messages sr\<rparr>"
  have h: "handleAgentHandoff e ?s1 q (handoffInput sr) wl = (Inr s', wl')"
    using assms(4,5) by (simp add: processStepResult_def Let_def)
  then obtain wl2 wl3 where u: "updateMessagesForNewAgent e ?s1 q wl2 = (Inr s', wl3)"
    by (auto simp: handleAgentHandoff_def split: prod.splits sum.splits option.splits)
  obtain w1 log1 where wl2: "wl2 = (w1, log1)" by (cases wl2)
  from u wl2 obtain instructions w2 where
    g: "GetSystemPrompt (heap e q) w1 = (Inr instructions, w2)"
    and s': "s' = ?s1\<lparr>currentAgent := q,
               messages := mk_Message ''system'' instructions #
                 filter (\<lambda>msg. Role msg \<noteq> ''system'') (messages ?s1)\<rparr>"
    by (auto simp: updateMessagesForNewAgent_def split: prod.splits sum.splits)
  have m: "messages s' = mk_Message ''system'' instructions #
             filter (\<lambda>msg. Role msg \<noteq> ''system'') (messages s @ sr_messages sr)"
    using s' by simp
  have one: "length (filter (\<lambda>msg. Role msg = ''system'') (messages s')) = 1"
    unfolding m by (simp add: mk_Message_def)
  have fr: "stepCounter s = stepCounter s0" "finalOutput s = finalOutput s0"
    using runSingleTurn_frame [OF assms(3)] by simp_all
  have sc: "stepCounter s' = stepCounter s0" "finalOutput s' = []"
    using s' fr assms(2) by simp_all
  have "runAgentExecutionLoop e s0 wl0 =
          runAgentExecutionLoop e (s'\<lparr>stepCounter := stepCounter s' + 1\<rparr>) wl'"
    by (rule loop_continue [OF assms(1,3,5) sc(2)])
  then show ?thesis using g m one s' sc(1) by auto
qed

theorem C4_transfer_continuity_witness:
  "\<exists>sr s wl s' wl'.
     stepCounter handoff_state < MaxTurns (config handoff_state) \<and>
     finalOutput handoff_state = [] \<and>
     runSingleTurn handoff_env handoff_state (0, []) = (Inr (sr, s), wl) \<and>
     nextAgent sr = Some 1 \<and>
     processStepResult handoff_env s sr wl = (Inr s', wl') \<and>
     length (filter (\<lambda>msg. Role msg = ''system'') (messages s')) = 1 \<and>
     currentAgent s' = 1 \<and> stepCounter s' = 0"
proof -
  define T where "T = runSingleTurn handoff_env handoff_state (0, [])"
  define sr where "sr = fst (projr (fst T))"
  define s where "s = snd (projr (fst T))"
  define P where "P = processStepResult handoff_env s sr (snd T)"
  have "\<not> isl (fst T)" unfolding T_def by code_simp
  then have t: "runSingleTurn handoff_env handoff_state (0, []) = (Inr (sr, s), snd T)"
    unfolding sr_def s_def using result_Inr_pair T_def by metis
  have n: "nextAgent sr = Some 1" unfolding sr_def T_def by code_simp
  have "\<not> isl (fst P)" unfolding P_def sr_def s_def T_def by code_simp
  then have p: "processStepResult handoff_env s sr (snd T) = (Inr (projr (fst P)), snd P)"
    using result_Inr P_def by metis
  have c: "stepCounter handoff_state < MaxTurns (config handoff_state)"
    and f: "finalOutput handoff_state = []"
    and z: "stepCounter handoff_state = 0"
    by (simp_all add: handoff_state_def initial_state_def test_config_def)
  from C4_transfer_continuity [OF c f t n p] z show ?thesis
    using t n p c f by auto
qed

section \<open>C5: which transfer is taken\<close>

text \<open>
  Claim C5, as the code has it. When a turn whose response asks for invocations ends in a
  transfer to an agent, that transfer comes from the first request, and for it the first
  handoff of the current agent, such that the handoff's tool name is the requested name and
  its predicate accepts the arguments: every earlier pair of a request and a handoff of the
  same name was declined by the predicate of that handoff. Nothing is recorded in that turn
  after the model call, so no tool is invoked, and the only message of the turn is the
  assistant message of the response, so no tool message is produced. The requests that follow
  the one taken play no part in the result.
\<close>

theorem C5_first_accepted_transfer:
  fixes e :: "('w, 'v) env" and sr :: "'v stepResult" and taken :: "'v stepResult"
  shows
    "(runSingleTurn e s (w, log) = (Inr (sr, s1), (w1, log1)) \<longrightarrow>
      log1 = log @ EvModelCall msgs (Inr response) # evs \<longrightarrow>
      ToolCalls (resp_Message response) \<noteq> [] \<longrightarrow>
      nextAgent sr = Some q \<longrightarrow>
        evs = [] \<and> sr_messages sr = [resp_Message response] \<and>
        (\<exists>pre tc post hpre h hpost.
           ToolCalls (resp_Message response) = pre @ tc # post \<and>
           Handoffs (heap e (currentAgent s)) = hpre @ h # hpost \<and>
           ToolName h = fn_Name (Function tc) \<and> TargetAgent h = AgentPtr q \<and>
           handoffInput sr = fn_Arguments (Function tc) \<and>
           (\<exists>wa wb. ShouldHandoff h (fn_Arguments (Function tc)) wa = (Inr True, wb)) \<and>
           (\<forall>h'\<in>set hpre. ToolName h' = fn_Name (Function tc) \<longrightarrow>
              (\<exists>wa wb. ShouldHandoff h' (fn_Arguments (Function tc)) wa = (Inr False, wb))) \<and>
           (\<forall>tc'\<in>set pre. \<forall>h'\<in>set (Handoffs (heap e (currentAgent s))).
              ToolName h' = fn_Name (Function tc') \<longrightarrow>
              (\<exists>wa wb. ShouldHandoff h' (fn_Arguments (Function tc')) wa = (Inr False, wb))))) \<and>
     (ToolCalls message = before @ request # after \<longrightarrow>
      scanToolCalls (json_Unmarshal e) message (Handoffs (heap e p)) before wl =
        (Inr None :: error + 'v stepResult option, wl1) \<longrightarrow>
      scanHandoffs (json_Unmarshal e) message request (Handoffs (heap e p)) wl1 =
        (Inr (Some taken), wl2) \<longrightarrow>
        processToolCallsAndHandoffs e p message wl = (Inr taken, wl2))"
proof (intro conjI impI)
  assume b: "ToolCalls message = before @ request # after"
    and n: "scanToolCalls (json_Unmarshal e) message (Handoffs (heap e p)) before wl =
        (Inr None :: error + 'v stepResult option, wl1)"
    and t: "scanHandoffs (json_Unmarshal e) message request (Handoffs (heap e p)) wl1 =
        (Inr (Some taken), wl2)"
  have "scanToolCalls (json_Unmarshal e) message (Handoffs (heap e p)) (ToolCalls message) wl =
      (Inr (Some taken), wl2)"
    unfolding b scanToolCalls_append [of _ _ _ before "request # after"] n by (simp add: t)
  then show "processToolCallsAndHandoffs e p message wl = (Inr taken, wl2)"
    using b by (simp add: processToolCallsAndHandoffs_def)
next
  assume turn: "runSingleTurn e s (w, log) = (Inr (sr, s1), (w1, log1))"
    and l1: "log1 = log @ EvModelCall msgs (Inr response) # evs"
    and tcs: "ToolCalls (resp_Message response) \<noteq> []"
    and na: "nextAgent sr = Some q"
  let ?m = "resp_Message response"
  let ?ev = "EvModelCall msgs (Inr response)"
  let ?hs = "Handoffs (heap e (currentAgent s))"
  from runSingleTurn_tools_event [OF turn l1 tcs] obtain w2 where
    eq: "(Inr (sr, s1), (w1, log1)) =
            (case processToolCallsAndHandoffs e (currentAgent s) ?m (w2, log @ [?ev]) of
               (Inl err, wl2) \<Rightarrow> (Inl err, wl2)
             | (Inr sr, wl2) \<Rightarrow> (Inr (sr, usage_added (s\<lparr>messages := msgs\<rparr>) response), wl2))"
    by blast
  obtain y wl3 where py:
    "processToolCallsAndHandoffs e (currentAgent s) ?m (w2, log @ [?ev]) =
       (y :: error + 'v stepResult, wl3)"
    by (metis surj_pair)
  have p: "processToolCallsAndHandoffs e (currentAgent s) ?m (w2, log @ [?ev]) =
       (Inr sr, (w1, log1))"
    using eq unfolding py by (cases y) simp_all
  from processToolCallsAndHandoffs_shape [OF p] na obtain evs' where
    "log1 = (log @ [?ev]) @ evs'" "evs' = []" and ms: "sr_messages sr = [?m]"
    by auto
  then have e0: "evs = []" using l1 by simp
  from processToolCallsAndHandoffs_taken [OF p na]
  have sc: "scanToolCalls (json_Unmarshal e) ?m ?hs (ToolCalls ?m) (w2, log @ [?ev]) =
      (Inr (Some sr), (w1, log1))" .
  from scanToolCalls_taken [OF sc] obtain pre tc post w3 where
    d: "ToolCalls ?m = pre @ tc # post"
    and sh: "scanHandoffs (json_Unmarshal e) ?m tc ?hs (w3, log @ [?ev]) =
        (Inr (Some sr), (w1, log1))"
    and dp: "\<forall>tc'\<in>set pre. \<forall>h'\<in>set ?hs. ToolName h' = fn_Name (Function tc') \<longrightarrow>
           (\<exists>wa wb. ShouldHandoff h' (fn_Arguments (Function tc')) wa = (Inr False, wb))"
    by blast
  from scanHandoffs_taken [OF sh] obtain hpre h hpost where
    1: "?hs = hpre @ h # hpost" and 2: "ToolName h = fn_Name (Function tc)"
    and 3: "\<exists>wa. ShouldHandoff h (fn_Arguments (Function tc)) wa = (Inr True, w1)"
    and 5: "sr = handoff_stepResult (case TargetAgent h of AgentPtr q \<Rightarrow> Some q | _ \<Rightarrow> None)
               ?m (fn_Arguments (Function tc))"
    and 6: "\<forall>h'\<in>set hpre. ToolName h' = fn_Name (Function tc) \<longrightarrow>
           (\<exists>wa wb. ShouldHandoff h' (fn_Arguments (Function tc)) wa = (Inr False, wb))"
    by blast
  have na': "nextAgent sr = (case TargetAgent h of AgentPtr q \<Rightarrow> Some q | _ \<Rightarrow> None)"
    and hi: "handoffInput sr = fn_Arguments (Function tc)"
    by (simp_all add: 5 handoff_stepResult_def)
  have ta: "TargetAgent h = AgentPtr q" using na na' by (cases "TargetAgent h") simp_all
  have acc: "\<exists>wa wb. ShouldHandoff h (fn_Arguments (Function tc)) wa = (Inr True, wb)"
    using 3 by blast
  show "evs = []" by (rule e0)
  show "sr_messages sr = [resp_Message response]" by (rule ms)
  show "\<exists>pre tc post hpre h hpost.
           ToolCalls (resp_Message response) = pre @ tc # post \<and>
           Handoffs (heap e (currentAgent s)) = hpre @ h # hpost \<and>
           ToolName h = fn_Name (Function tc) \<and> TargetAgent h = AgentPtr q \<and>
           handoffInput sr = fn_Arguments (Function tc) \<and>
           (\<exists>wa wb. ShouldHandoff h (fn_Arguments (Function tc)) wa = (Inr True, wb)) \<and>
           (\<forall>h'\<in>set hpre. ToolName h' = fn_Name (Function tc) \<longrightarrow>
              (\<exists>wa wb. ShouldHandoff h' (fn_Arguments (Function tc)) wa = (Inr False, wb))) \<and>
           (\<forall>tc'\<in>set pre. \<forall>h'\<in>set (Handoffs (heap e (currentAgent s))).
              ToolName h' = fn_Name (Function tc') \<longrightarrow>
              (\<exists>wa wb. ShouldHandoff h' (fn_Arguments (Function tc')) wa = (Inr False, wb)))"
  proof (rule exI [of _ pre], rule exI [of _ tc], rule exI [of _ post], rule exI [of _ hpre],
      rule exI [of _ h], rule exI [of _ hpost], intro conjI)
    show "ToolCalls ?m = pre @ tc # post" by (rule d)
    show "?hs = hpre @ h # hpost" by (rule 1)
    show "ToolName h = fn_Name (Function tc)" by (rule 2)
    show "TargetAgent h = AgentPtr q" by (rule ta)
    show "handoffInput sr = fn_Arguments (Function tc)" by (rule hi)
    show "\<exists>wa wb. ShouldHandoff h (fn_Arguments (Function tc)) wa = (Inr True, wb)" by (rule acc)
    show "\<forall>h'\<in>set hpre. ToolName h' = fn_Name (Function tc) \<longrightarrow>
              (\<exists>wa wb. ShouldHandoff h' (fn_Arguments (Function tc)) wa = (Inr False, wb))"
      by (rule 6)
    show "\<forall>tc'\<in>set pre. \<forall>h'\<in>set ?hs. ToolName h' = fn_Name (Function tc') \<longrightarrow>
              (\<exists>wa wb. ShouldHandoff h' (fn_Arguments (Function tc')) wa = (Inr False, wb))"
      by (rule dp)
  qed
qed

theorem C5_first_accepted_transfer_witness:
  "(\<exists>sr s1 w1 log1.
      runSingleTurn transfer_env two_transfers_state (0, []) = (Inr (sr, s1), (w1, log1)) \<and>
      log1 = [] @ EvModelCall (messages two_transfers_state) (Inr two_transfers_response) # [] \<and>
      ToolCalls (resp_Message two_transfers_response) \<noteq> [] \<and>
      nextAgent sr = Some 2 \<and>
      sr_messages sr = [resp_Message two_transfers_response] \<and>
      (\<exists>pre tc post hpre h hpost.
           ToolCalls (resp_Message two_transfers_response) = pre @ tc # post \<and>
           Handoffs (heap transfer_env (currentAgent two_transfers_state)) = hpre @ h # hpost \<and>
           ToolName h = fn_Name (Function tc) \<and> TargetAgent h = AgentPtr 2 \<and>
           handoffInput sr = fn_Arguments (Function tc))) \<and>
   ToolCalls two_transfers =
     [function_call ''transfer_to_function_handoff''] @
     function_call ''transfer_to_simple_handoff'' # [function_call ''test_tool''] \<and>
   scanToolCalls (json_Unmarshal transfer_env) two_transfers (Handoffs (heap transfer_env 0))
     [function_call ''transfer_to_function_handoff''] (0, []) =
     (Inr None :: error + unit stepResult option, (0, [])) \<and>
   scanHandoffs (json_Unmarshal transfer_env) two_transfers
     (function_call ''transfer_to_simple_handoff'') (Handoffs (heap transfer_env 0)) (0, []) =
     (Inr (Some (handoff_stepResult (Some 2) two_transfers ''{}'' :: unit stepResult)), (0, [])) \<and>
   processToolCallsAndHandoffs transfer_env 0 two_transfers (0, []) =
     (Inr (handoff_stepResult (Some 2) two_transfers ''{}''), (0, []))"
proof -
  define T where "T = runSingleTurn transfer_env two_transfers_state (0, [])"
  have "\<not> isl (fst T)" unfolding T_def by code_simp
  then have "runSingleTurn transfer_env two_transfers_state (0, []) =
      (Inr (fst (projr (fst T)), snd (projr (fst T))), snd T)"
    unfolding T_def by (rule result_Inr_pair)
  then have t: "runSingleTurn transfer_env two_transfers_state (0, []) =
      (Inr (fst (projr (fst T)), snd (projr (fst T))), (fst (snd T), snd (snd T)))"
    by simp
  have l1: "snd (snd T) =
      [] @ EvModelCall (messages two_transfers_state) (Inr two_transfers_response) # []"
    unfolding T_def by code_simp
  have ne: "ToolCalls (resp_Message two_transfers_response) \<noteq> []"
    by (simp add: two_transfers_response_def two_transfers_def)
  have na: "nextAgent (fst (projr (fst T))) = Some 2" unfolding T_def by code_simp
  note a = C5_first_accepted_transfer [THEN conjunct1, rule_format, OF t l1 ne na]
  from a have ms: "sr_messages (fst (projr (fst T))) = [resp_Message two_transfers_response]"
    by blast
  from a have ex: "\<exists>pre tc post hpre h hpost.
           ToolCalls (resp_Message two_transfers_response) = pre @ tc # post \<and>
           Handoffs (heap transfer_env (currentAgent two_transfers_state)) = hpre @ h # hpost \<and>
           ToolName h = fn_Name (Function tc) \<and> TargetAgent h = AgentPtr 2 \<and>
           handoffInput (fst (projr (fst T))) = fn_Arguments (Function tc)"
    by blast
  have first: "\<exists>sr s1 w1 log1.
      runSingleTurn transfer_env two_transfers_state (0, []) = (Inr (sr, s1), (w1, log1)) \<and>
      log1 = [] @ EvModelCall (messages two_transfers_state) (Inr two_transfers_response) # [] \<and>
      ToolCalls (resp_Message two_transfers_response) \<noteq> [] \<and>
      nextAgent sr = Some 2 \<and>
      sr_messages sr = [resp_Message two_transfers_response] \<and>
      (\<exists>pre tc post hpre h hpost.
           ToolCalls (resp_Message two_transfers_response) = pre @ tc # post \<and>
           Handoffs (heap transfer_env (currentAgent two_transfers_state)) = hpre @ h # hpost \<and>
           ToolName h = fn_Name (Function tc) \<and> TargetAgent h = AgentPtr 2 \<and>
           handoffInput sr = fn_Arguments (Function tc))"
    using t l1 ne na ms ex by blast
  have b: "ToolCalls two_transfers =
     [function_call ''transfer_to_function_handoff''] @
     function_call ''transfer_to_simple_handoff'' # [function_call ''test_tool'']"
    by (simp add: two_transfers_def)
  have n: "scanToolCalls (json_Unmarshal transfer_env) two_transfers
     (Handoffs (heap transfer_env 0)) [function_call ''transfer_to_function_handoff''] (0, []) =
     (Inr None :: error + unit stepResult option, (0, []))"
    by code_simp
  have k: "scanHandoffs (json_Unmarshal transfer_env) two_transfers
     (function_call ''transfer_to_simple_handoff'') (Handoffs (heap transfer_env 0)) (0, []) =
     (Inr (Some (handoff_stepResult (Some 2) two_transfers ''{}'' :: unit stepResult)), (0, []))"
    by code_simp
  note c = C5_first_accepted_transfer [THEN conjunct2, rule_format, OF b n k]
  show ?thesis by (intro conjI) (rule first b n k c)+
qed

text \<open>
  The claim as stated fails: the first request names a registered transfer target (agent 1),
  whose predicate declines; the second request names another one (agent 2), and it is the
  second that is honoured.
\<close>

theorem C5_later_transfer_taken:
  "ToolName (Handoffs (heap transfer_env 0) ! 0) = fn_Name (Function (ToolCalls two_transfers ! 0)) \<and>
   TargetAgent (Handoffs (heap transfer_env 0) ! 0) = AgentPtr 1 \<and>
   ToolName (Handoffs (heap transfer_env 0) ! 1) = fn_Name (Function (ToolCalls two_transfers ! 1)) \<and>
   TargetAgent (Handoffs (heap transfer_env 0) ! 1) = AgentPtr 2 \<and>
   fst (processToolCallsAndHandoffs transfer_env 0 two_transfers (0, [])) =
     Inr (handoff_stepResult (Some 2) two_transfers ''{}'') \<and>
   (\<exists>result wl.
      RunWithConfig transfer_env 0 ''user_message''
        (test_config [two_transfers, GetTextMessage ''done''] 10) (0, []) = (Inr result, wl) \<and>
      LastAgent result = 2 \<and> FinalOutput result = ''done'')"
proof -
  define R where "R = RunWithConfig transfer_env 0 ''user_message''
        (test_config [two_transfers, GetTextMessage ''done''] 10) (0, [])"
  have "\<not> isl (fst R)" unfolding R_def by code_simp
  then have "R = (Inr (projr (fst R)), snd R)" by (rule result_Inr)
  moreover have "LastAgent (projr (fst R)) = 2" unfolding R_def by code_simp
  moreover have "FinalOutput (projr (fst R)) = ''done''" unfolding R_def by code_simp
  ultimately have run: "\<exists>result wl.
      RunWithConfig transfer_env 0 ''user_message''
        (test_config [two_transfers, GetTextMessage ''done''] 10) (0, []) = (Inr result, wl) \<and>
      LastAgent result = 2 \<and> FinalOutput result = ''done''"
    unfolding R_def by metis
  have 1: "ToolName (Handoffs (heap transfer_env 0) ! 0) =
      fn_Name (Function (ToolCalls two_transfers ! 0))"
    by code_simp
  have 2: "TargetAgent (Handoffs (heap transfer_env 0) ! 0) = AgentPtr 1" by code_simp
  have 3: "ToolName (Handoffs (heap transfer_env 0) ! 1) =
      fn_Name (Function (ToolCalls two_transfers ! 1))"
    by code_simp
  have 4: "TargetAgent (Handoffs (heap transfer_env 0) ! 1) = AgentPtr 2" by code_simp
  have 5: "fst (processToolCallsAndHandoffs transfer_env 0 two_transfers (0, [])) =
     Inr (handoff_stepResult (Some 2) two_transfers ''{}'' :: unit stepResult)"
    by code_simp
  from 1 2 3 4 5 run show ?thesis by blast
qed

section \<open>C6: missing instructions\<close>

text \<open>
  Claim C6. \<^verbatim>\<open>validateInputsAndSetup\<close> looks at the static instructions only: a run of an
  agent whose \<^term>\<open>Instructions\<close> are empty fails with \<^term>\<open>ErrAgentMissingInstructions\<close> before
  anything is recorded, whether or not instructions can be computed on demand. So it does
  for the agent made by \<^verbatim>\<open>New("Dynamic Agent", "")\<close> with dynamic instructions set (the agent
  of the test \<^verbatim>\<open>TestDynamicInstructions\<close>), whose system prompt is \<^verbatim>\<open>"Dynamic instructions"\<close>.
\<close>

theorem C6_dynamic_instructions_rejected:
  fixes e :: "('w, 'v) env"
  assumes "Instructions (heap e a) = []"
  shows "RunWithConfig e a input cfg wl =
           (Inl (Wrap ''validation error: '' ErrAgentMissingInstructions []), wl)"
  using assms by (simp add: RunWithConfig_def validateInputsAndSetup_def)

theorem C6_dynamic_instructions_rejected_witness:
  "Instructions (heap (test_env dynamic_agent) 0) = [] \<and>
   dynamicInstructions dynamic_agent \<noteq> None \<and>
   GetSystemPrompt dynamic_agent 0 = (Inr ''Dynamic instructions'', 0) \<and>
   RunWithConfig (test_env dynamic_agent) 0 ''hello'' (test_config [GetTextMessage ''first''] 10)
       (0, []) =
     (Inl (Wrap ''validation error: '' ErrAgentMissingInstructions []), (0, []))"
proof -
  have i: "Instructions (heap (test_env dynamic_agent) 0) = []"
    by (simp add: test_env_def dynamic_agent_def New_def)
  have d: "dynamicInstructions dynamic_agent \<noteq> None"
    by (simp add: dynamic_agent_def New_def)
  have g: "GetSystemPrompt dynamic_agent 0 = (Inr ''Dynamic instructions'', 0)"
    by (simp add: dynamic_agent_def New_def GetSystemPrompt_def)
  from i d g C6_dynamic_instructions_rejected [OF i] show ?thesis by simp
qed

section \<open>C7: structured output\<close>

text \<open>
  Claim C7. In a turn below the turn budget whose response requests no invocation, with a
  current agent that declares an output type: if the nonempty content decodes into that type,
  a result returned by the run carries the decoded value as \<^term>\<open>StructuredOutput\<close>; if it
  does not decode, the run fails with an error that wraps \<^term>\<open>ErrInvalidOutputFormat\<close>
  (and is not the turn budget error), whose text names the turn and the decoder's error.
\<close>

theorem C7_structured_output:
  fixes e :: "('w, 'v) env" and res :: "error + 'v Result"
  assumes "stepCounter s < MaxTurns (config s)"
    and "runSingleTurn e s (w, log) = (r, (w1, log1))"
    and "log1 = log @ EvModelCall msgs (Inr response) # evs"
    and "ToolCalls (resp_Message response) = []"
    and "OutputType (heap e (currentAgent s)) = Some unmarshal"
    and "runAgentExecutionLoop e s (w, log) = (res, wl')"
  shows "(\<forall>v result. unmarshal (Content (resp_Message response)) = Inr v \<longrightarrow>
            Content (resp_Message response) \<noteq> [] \<longrightarrow> res = Inr result \<longrightarrow>
              StructuredOutput result = Some v) \<and>
         (\<forall>err. unmarshal (Content (resp_Message response)) = Inl err \<longrightarrow>
            (\<exists>err'. res = Inl err' \<and> errors_Is err' ErrInvalidOutputFormat \<and>
               \<not> errors_Is err' ErrMaxTurnsExceeded \<and>
               Error err' = ''step '' @ itoa_int (stepCounter s + 1) @
                 '' error: invalid output format: '' @ Error err))"
proof -
  let ?a = "heap e (currentAgent s)"
  let ?content = "Content (resp_Message response)"
  from runSingleTurn_final_event [OF assms(2,3,4)] obtain w2 where
    ft: "(r, (w1, log1)) = final_turn e s msgs response (w2, log @ [EvModelCall msgs (Inr response)])"
    by blast
  note cs = final_turn_cases [OF ft]
  have first: "\<forall>v result. unmarshal ?content = Inr v \<longrightarrow> ?content \<noteq> [] \<longrightarrow> res = Inr result \<longrightarrow>
              StructuredOutput result = Some v"
  proof (intro allI impI)
    fix v result
    assume v: "unmarshal ?content = Inr v" and ne: "?content \<noteq> []" and ok: "res = Inr result"
    have ps: "parse_structured_output ?a ?content = Inr (Some v)"
      using assms(5) v by (simp add: parse_structured_output_def)
    with cs obtain g where
      g: "check_output ?a ?content (w2, log @ [EvModelCall msgs (Inr response)]) = (g, (w1, log1))"
      and rg: "case g of Inl err \<Rightarrow> r = Inl err
               | Inr checkedOutput \<Rightarrow>
                   r = Inr (final_stepResult checkedOutput (Some v) response,
                            usage_added (s\<lparr>messages := msgs\<rparr>) response)"
      by auto
    show "StructuredOutput result = Some v"
    proof (cases g)
      case (Inl err)
      then have "r = Inl err" using rg by simp
      then have "\<exists>err'. res = Inl err'"
        using assms(6) loop_turn_error [OF assms(1), of e "(w, log)" err "(w1, log1)"] assms(2)
        by auto
      then show ?thesis using ok by simp
    next
      case (Inr checkedOutput)
      let ?sr = "final_stepResult checkedOutput (Some v) response"
      let ?s1 = "usage_added (s\<lparr>messages := msgs\<rparr>) response"
      have r: "r = Inr (?sr, ?s1)" using rg Inr by simp
      have c: "checkedOutput \<noteq> []"
        using check_output_nonempty g Inr ne by blast
      have t: "runSingleTurn e s (w, log) = (Inr (?sr, ?s1), (w1, log1))"
        using assms(2) r by simp
      have "nextAgent ?sr = None" "sr_finalOutput ?sr \<noteq> []"
        using c by (simp_all add: final_stepResult_def)
      from loop_final_output [OF assms(1) t this]
      have en: "runAgentExecutionLoop_end e
             (?s1\<lparr>messages := messages ?s1 @ sr_messages ?sr,
                 resultMessages := resultMessages ?s1 @ sr_messages ?sr,
                 finalOutput := sr_finalOutput ?sr,
                 structuredOutput := sr_structuredOutput ?sr\<rparr>) (w1, log1) = (res, wl')"
        using assms(6) by simp
      obtain w' log' where wl': "wl' = (w', log')" by (cases wl')
      from runAgentExecutionLoop_end_result [OF en [unfolded wl']] c ok
      show ?thesis by (simp add: final_stepResult_def)
    qed
  qed
  have second: "\<forall>err. unmarshal ?content = Inl err \<longrightarrow>
            (\<exists>err'. res = Inl err' \<and> errors_Is err' ErrInvalidOutputFormat \<and>
               \<not> errors_Is err' ErrMaxTurnsExceeded \<and>
               Error err' = ''step '' @ itoa_int (stepCounter s + 1) @
                 '' error: invalid output format: '' @ Error err)"
  proof (intro allI impI)
    fix err
    assume "unmarshal ?content = Inl err"
    then have "parse_structured_output ?a ?content =
        Inl (Wrap [] ErrInvalidOutputFormat ('': '' @ Error err))"
      using assms(5) by (simp add: parse_structured_output_def)
    with cs have "r = Inl (Wrap [] ErrInvalidOutputFormat ('': '' @ Error err))" by auto
    then have "res = Inl (Wrap (''step '' @ itoa_int (stepCounter s + 1) @ '' error: '')
          (Wrap [] ErrInvalidOutputFormat ('': '' @ Error err)) [])"
      using assms(6) loop_turn_error [OF assms(1), of e "(w, log)" _ "(w1, log1)"] assms(2)
      by auto
    then show "\<exists>err'. res = Inl err' \<and> errors_Is err' ErrInvalidOutputFormat \<and>
               \<not> errors_Is err' ErrMaxTurnsExceeded \<and>
               Error err' = ''step '' @ itoa_int (stepCounter s + 1) @
                 '' error: invalid output format: '' @ Error err"
      by simp
  qed
  from first second show ?thesis by blast
qed

theorem C7_structured_output_witness:
  "\<exists>r w1 log1 res wl'.
     stepCounter structured_state < MaxTurns (config structured_state) \<and>
     runSingleTurn (test_env structured_agent) structured_state (0, []) = (r, (w1, log1)) \<and>
     log1 = [] @ EvModelCall (messages structured_state) (Inr bar_response) # [] \<and>
     ToolCalls (resp_Message bar_response) = [] \<and>
     OutputType (heap (test_env structured_agent) (currentAgent structured_state)) =
       Some unmarshal_TestOutputStruct \<and>
     runAgentExecutionLoop (test_env structured_agent) structured_state (0, []) = (res, wl') \<and>
     unmarshal_TestOutputStruct (Content (resp_Message bar_response)) = Inr ''baz'' \<and>
     (\<exists>result. res = Inr result \<and> StructuredOutput result = Some ''baz'')"
proof -
  define T where "T = runSingleTurn (test_env structured_agent) structured_state (0, [])"
  define L where "L = runAgentExecutionLoop (test_env structured_agent) structured_state (0, [])"
  have t: "runSingleTurn (test_env structured_agent) structured_state (0, []) =
      (fst T, (fst (snd T), snd (snd T)))"
    by (simp add: T_def)
  have l1: "snd (snd T) = [] @ EvModelCall (messages structured_state) (Inr bar_response) # []"
    unfolding T_def by code_simp
  have lt: "stepCounter structured_state < MaxTurns (config structured_state)"
    by (simp add: structured_state_def initial_state_def test_config_def)
  have nt: "ToolCalls (resp_Message bar_response) = []"
    by (simp add: bar_response_def GetTextMessage_def mk_Message_def)
  have ot: "OutputType (heap (test_env structured_agent) (currentAgent structured_state)) =
       Some unmarshal_TestOutputStruct"
    by (simp add: test_env_def structured_agent_def New_def)
  have lp: "runAgentExecutionLoop (test_env structured_agent) structured_state (0, []) =
      (fst L, snd L)"
    by (simp add: L_def)
  have v: "unmarshal_TestOutputStruct (Content (resp_Message bar_response)) = Inr ''baz''"
    by (simp add: unmarshal_TestOutputStruct_def bar_response_def GetTextMessage_def
        mk_Message_def)
  have ne: "Content (resp_Message bar_response) \<noteq> []"
    by (simp add: bar_response_def GetTextMessage_def mk_Message_def bar_json_def)
  have "\<not> isl (fst L)" unfolding L_def by code_simp
  then have ok: "fst L = Inr (projr (fst L))" by (rule isl_projr)
  from C7_structured_output [OF lt t l1 nt ot lp] v ne ok
  have "StructuredOutput (projr (fst L)) = Some ''baz''" by blast
  with ok have "\<exists>result. fst L = Inr result \<and> StructuredOutput result = Some ''baz''"
    by metis
  with lt t l1 nt ot lp v show ?thesis by blast
qed

section \<open>C8: output guardrails\<close>

text \<open>
  Claim C8. Output guardrails run over the final output in the order in which they are listed on
  the agent: running a list \<^term>\<open>gs1 @ gs2\<close> is running \<^term>\<open>gs1\<close> and then, on the text it
  produced, \<^term>\<open>gs2\<close>. A guardrail that allows the output and supplies a nonempty modified
  output replaces the text passed on; one that allows it without one passes it on unchanged; one
  that does not allow it stops the chain with \<^term>\<open>ErrGuardrailTripwire\<close>. In a final turn the
  structured output is decoded from the content of the model's response, so the result carries
  the text the guardrails produced as \<^term>\<open>FinalOutput\<close> and the structured output of the original
  content. In a run, a refusing output guardrail is the last thing that happens and the run fails
  with an error that wraps \<^term>\<open>ErrGuardrailTripwire\<close>.
\<close>

theorem C8_output_guardrails:
  fixes e :: "('w, 'v) env" and res :: "error + 'v Result" and run_res :: "error + 'v Result"
  shows
    "applyOutputGuardrails_loop i (gs1 @ gs2) out wl =
       (case applyOutputGuardrails_loop i gs1 out wl of
          (Inl err, wl1) \<Rightarrow> (Inl err, wl1)
        | (Inr out1, wl1) \<Rightarrow> applyOutputGuardrails_loop (i + length gs1) gs2 out1 wl1) \<and>
     applyOutputGuardrails_loop i [g] out (w, log) =
       (case og_Check g out w of
          (Inl err, w1) \<Rightarrow>
            (Inl (Wrap ''output guardrail error: '' err []),
             (w1, log @ [EvOutputGuardrail i out (Inl err)]))
        | (Inr result, w1) \<Rightarrow>
            if og_Allowed result
            then (Inr (if ModifiedOutput result \<noteq> [] then ModifiedOutput result else out),
                  (w1, log @ [EvOutputGuardrail i out (Inr result)]))
            else (Inl (Wrap [] ErrGuardrailTripwire ('': '' @ og_Message result)),
                  (w1, log @ [EvOutputGuardrail i out (Inr result)]))) \<and>
     check_output a out wl =
       (if OutputGuardrails a \<noteq> []
        then applyOutputGuardrails_loop 0 (OutputGuardrails a) out wl else (Inr out, wl)) \<and>
     (stepCounter s < MaxTurns (config s) \<longrightarrow>
      runSingleTurn e s (w, log) = (r, (w1, log1)) \<longrightarrow>
      log1 = log @ EvModelCall msgs (Inr response) # evs \<longrightarrow>
      ToolCalls (resp_Message response) = [] \<longrightarrow>
      runAgentExecutionLoop e s (w, log) = (res, wl') \<longrightarrow>
      parse_structured_output (heap e (currentAgent s)) (Content (resp_Message response)) =
        Inr structured \<longrightarrow>
        (\<exists>w2 checked.
           check_output (heap e (currentAgent s)) (Content (resp_Message response))
             (w2, log @ [EvModelCall msgs (Inr response)]) = (checked, (w1, log1)) \<and>
           (\<forall>err. checked = Inl err \<longrightarrow>
              res = Inl (Wrap (''step '' @ itoa_int (stepCounter s + 1) @ '' error: '') err [])) \<and>
           (\<forall>checkedOutput result. checked = Inr checkedOutput \<longrightarrow> checkedOutput \<noteq> [] \<longrightarrow>
              res = Inr result \<longrightarrow>
                FinalOutput result = checkedOutput \<and> StructuredOutput result = structured))) \<and>
     (RunWithConfig e p input cfg (w0, []) = (run_res, (w0', run_log)) \<longrightarrow>
      EvOutputGuardrail j seen (Inr blocked) \<in> set run_log \<longrightarrow> \<not> og_Allowed blocked \<longrightarrow>
        last run_log = EvOutputGuardrail j seen (Inr blocked) \<and>
        (\<exists>err. run_res = Inl err \<and> errors_Is err ErrGuardrailTripwire \<and>
           errors_Is err (Wrap [] ErrGuardrailTripwire ('': '' @ og_Message blocked))))"
proof (intro conjI impI)
  show "applyOutputGuardrails_loop i (gs1 @ gs2) out wl =
       (case applyOutputGuardrails_loop i gs1 out wl of
          (Inl err, wl1) \<Rightarrow> (Inl err, wl1)
        | (Inr out1, wl1) \<Rightarrow> applyOutputGuardrails_loop (i + length gs1) gs2 out1 wl1)"
    by (rule applyOutputGuardrails_loop_append)
next
  show "applyOutputGuardrails_loop i [g] out (w, log) =
       (case og_Check g out w of
          (Inl err, w1) \<Rightarrow>
            (Inl (Wrap ''output guardrail error: '' err []),
             (w1, log @ [EvOutputGuardrail i out (Inl err)]))
        | (Inr result, w1) \<Rightarrow>
            if og_Allowed result
            then (Inr (if ModifiedOutput result \<noteq> [] then ModifiedOutput result else out),
                  (w1, log @ [EvOutputGuardrail i out (Inr result)]))
            else (Inl (Wrap [] ErrGuardrailTripwire ('': '' @ og_Message result)),
                  (w1, log @ [EvOutputGuardrail i out (Inr result)])))"
    by (auto split: prod.splits sum.splits)
next
  show "check_output a out wl =
       (if OutputGuardrails a \<noteq> []
        then applyOutputGuardrails_loop 0 (OutputGuardrails a) out wl else (Inr out, wl))"
    by (simp add: check_output_def applyOutputGuardrails_def)
next
  assume lt: "stepCounter s < MaxTurns (config s)"
    and t: "runSingleTurn e s (w, log) = (r, (w1, log1))"
    and l1: "log1 = log @ EvModelCall msgs (Inr response) # evs"
    and nt: "ToolCalls (resp_Message response) = []"
    and lp: "runAgentExecutionLoop e s (w, log) = (res, wl')"
    and ps: "parse_structured_output (heap e (currentAgent s)) (Content (resp_Message response)) =
        Inr structured"
  let ?a = "heap e (currentAgent s)"
  let ?content = "Content (resp_Message response)"
  let ?wl = "(w2, log @ [EvModelCall msgs (Inr response)])"
  from runSingleTurn_final_event [OF t l1 nt] obtain w2 where
    ft: "(r, (w1, log1)) = final_turn e s msgs response (w2, log @ [EvModelCall msgs (Inr response)])"
    by blast
  from final_turn_cases [OF ft] ps obtain checked where
    g: "check_output ?a ?content (w2, log @ [EvModelCall msgs (Inr response)]) = (checked, (w1, log1))"
    and rg: "case checked of Inl err \<Rightarrow> r = Inl err
             | Inr checkedOutput \<Rightarrow>
                 r = Inr (final_stepResult checkedOutput structured response,
                          usage_added (s\<lparr>messages := msgs\<rparr>) response)"
    by auto
  have e1: "\<forall>err. checked = Inl err \<longrightarrow>
              res = Inl (Wrap (''step '' @ itoa_int (stepCounter s + 1) @ '' error: '') err [])"
  proof (intro allI impI)
    fix err assume "checked = Inl err"
    then have "r = Inl err" using rg by simp
    then show "res = Inl (Wrap (''step '' @ itoa_int (stepCounter s + 1) @ '' error: '') err [])"
      using lp loop_turn_error [OF lt, of e "(w, log)" err "(w1, log1)"] t by auto
  qed
  have e2: "\<forall>checkedOutput result. checked = Inr checkedOutput \<longrightarrow> checkedOutput \<noteq> [] \<longrightarrow>
              res = Inr result \<longrightarrow>
                FinalOutput result = checkedOutput \<and> StructuredOutput result = structured"
  proof (intro allI impI)
    fix checkedOutput result
    assume c: "checked = Inr checkedOutput" and ne: "checkedOutput \<noteq> []" and ok: "res = Inr result"
    let ?sr = "final_stepResult checkedOutput structured response"
    let ?s1 = "usage_added (s\<lparr>messages := msgs\<rparr>) response"
    have t': "runSingleTurn e s (w, log) = (Inr (?sr, ?s1), (w1, log1))"
      using t rg c by simp
    have "nextAgent ?sr = None" "sr_finalOutput ?sr \<noteq> []"
      using ne by (simp_all add: final_stepResult_def)
    from loop_final_output [OF lt t' this]
    have en: "runAgentExecutionLoop_end e
             (?s1\<lparr>messages := messages ?s1 @ sr_messages ?sr,
                 resultMessages := resultMessages ?s1 @ sr_messages ?sr,
                 finalOutput := sr_finalOutput ?sr,
                 structuredOutput := sr_structuredOutput ?sr\<rparr>) (w1, log1) = (res, wl')"
      using lp by simp
    obtain w' log' where wl': "wl' = (w', log')" by (cases wl')
    from runAgentExecutionLoop_end_result [OF en [unfolded wl']] ne ok
    show "FinalOutput result = checkedOutput \<and> StructuredOutput result = structured"
      by (simp add: final_stepResult_def)
  qed
  from g e1 e2 show "\<exists>w2 checked.
           check_output ?a ?content (w2, log @ [EvModelCall msgs (Inr response)]) =
             (checked, (w1, log1)) \<and>
           (\<forall>err. checked = Inl err \<longrightarrow>
              res = Inl (Wrap (''step '' @ itoa_int (stepCounter s + 1) @ '' error: '') err [])) \<and>
           (\<forall>checkedOutput result. checked = Inr checkedOutput \<longrightarrow> checkedOutput \<noteq> [] \<longrightarrow>
              res = Inr result \<longrightarrow>
                FinalOutput result = checkedOutput \<and> StructuredOutput result = structured)"
    by blast
next
  assume run: "RunWithConfig e p input cfg (w0, []) = (run_res, (w0', run_log))"
    and m: "EvOutputGuardrail j seen (Inr blocked) \<in> set run_log" and d: "\<not> og_Allowed blocked"
  have f: "event_failure (EvOutputGuardrail j seen (Inr blocked)) =
      Some (Wrap [] ErrGuardrailTripwire ('': '' @ og_Message blocked))"
    using d by simp
  from run_fatal_event [OF run m f]
  show "last run_log = EvOutputGuardrail j seen (Inr blocked)" by simp
next
  assume run: "RunWithConfig e p input cfg (w0, []) = (run_res, (w0', run_log))"
    and m: "EvOutputGuardrail j seen (Inr blocked) \<in> set run_log" and d: "\<not> og_Allowed blocked"
  have f: "event_failure (EvOutputGuardrail j seen (Inr blocked)) =
      Some (Wrap [] ErrGuardrailTripwire ('': '' @ og_Message blocked))"
    using d by simp
  from run_fatal_event [OF run m f] propagated_tripwire
  show "\<exists>err. run_res = Inl err \<and> errors_Is err ErrGuardrailTripwire \<and>
           errors_Is err (Wrap [] ErrGuardrailTripwire ('': '' @ og_Message blocked))"
    by (metis is_input_guardrail.simps(4))
qed

theorem C8_output_guardrails_witness:
  "\<exists>r w1 log1 res wl' run_res w0' run_log.
     stepCounter modifying_state < MaxTurns (config modifying_state) \<and>
     runSingleTurn (test_env modifying_agent) modifying_state (0, []) = (r, (w1, log1)) \<and>
     log1 = [] @ EvModelCall (messages modifying_state) (Inr original_response) #
                 [EvOutputGuardrail 0 ''Original output'' (Inr modify_result)] \<and>
     ToolCalls (resp_Message original_response) = [] \<and>
     runAgentExecutionLoop (test_env modifying_agent) modifying_state (0, []) = (res, wl') \<and>
     parse_structured_output (heap (test_env modifying_agent) (currentAgent modifying_state))
       (Content (resp_Message original_response)) = Inr None \<and>
     (\<exists>result. res = Inr result \<and> FinalOutput result = ''Modified output'' \<and>
        StructuredOutput result = None) \<and>
     RunWithConfig (test_env denying_agent) 0 ''test input''
       (test_config [GetTextMessage ''Original output''] 10) (0, []) = (run_res, (w0', run_log)) \<and>
     EvOutputGuardrail 1 ''Modified output'' (Inr deny_result) \<in> set run_log \<and>
     \<not> og_Allowed deny_result \<and>
     last run_log = EvOutputGuardrail 1 ''Modified output'' (Inr deny_result) \<and>
     (\<exists>err. run_res = Inl err \<and> errors_Is err ErrGuardrailTripwire)"
proof -
  let ?e = "test_env modifying_agent"
  define T where "T = runSingleTurn ?e modifying_state (0, [])"
  define L where "L = runAgentExecutionLoop ?e modifying_state (0, [])"
  define R :: "(error + unit Result) \<times> nat world" where
    "R = RunWithConfig (test_env denying_agent) 0 ''test input''
       (test_config [GetTextMessage ''Original output''] 10) (0, [])"
  let ?log = "[] @ EvModelCall (messages modifying_state) (Inr original_response) #
                 [EvOutputGuardrail 0 ''Original output'' (Inr modify_result)]"
  have t: "runSingleTurn ?e modifying_state (0, []) = (fst T, (fst (snd T), snd (snd T)))"
    by (simp add: T_def)
  have l1: "snd (snd T) = ?log"
    unfolding T_def by code_simp
  have lt: "stepCounter modifying_state < MaxTurns (config modifying_state)"
    by (simp add: modifying_state_def initial_state_def test_config_def)
  have nt: "ToolCalls (resp_Message original_response) = []"
    by (simp add: original_response_def GetTextMessage_def mk_Message_def)
  have lp: "runAgentExecutionLoop ?e modifying_state (0, []) = (fst L, snd L)"
    by (simp add: L_def)
  have ps: "parse_structured_output (heap ?e (currentAgent modifying_state))
       (Content (resp_Message original_response)) = Inr None"
    by (simp add: parse_structured_output_def test_env_def modifying_agent_def New_def)
  have "\<not> isl (fst L)" unfolding L_def by code_simp
  then have ok: "fst L = Inr (projr (fst L))" by (rule isl_projr)
  from C8_output_guardrails [THEN conjunct2, THEN conjunct2, THEN conjunct2, THEN conjunct1,
      rule_format, OF lt t l1 nt lp ps]
  obtain w2 checked where
    c: "check_output (heap ?e (currentAgent modifying_state))
          (Content (resp_Message original_response))
          (w2, [] @ [EvModelCall (messages modifying_state) (Inr original_response)]) =
        (checked, (fst (snd T), snd (snd T)))"
    and f: "\<And>checkedOutput result. checked = Inr checkedOutput \<Longrightarrow> checkedOutput \<noteq> [] \<Longrightarrow>
              fst L = Inr result \<Longrightarrow>
                FinalOutput result = checkedOutput \<and> StructuredOutput result = None"
    by blast
  have "fst (check_output (heap ?e (currentAgent modifying_state))
          (Content (resp_Message original_response))
          (w2, [] @ [EvModelCall (messages modifying_state) (Inr original_response)])) =
        Inr ''Modified output''"
    by (simp add: check_output_def applyOutputGuardrails_def test_env_def modifying_agent_def
        New_def modifyGuardrail_def modify_result_def)
  with c have "checked = Inr ''Modified output''" by simp
  from f [OF this _ ok]
  have res: "\<exists>result. fst L = Inr result \<and> FinalOutput result = ''Modified output'' \<and>
        StructuredOutput result = None"
    using ok by auto
  have run: "RunWithConfig (test_env denying_agent) 0 ''test input''
       (test_config [GetTextMessage ''Original output''] 10) (0, []) =
       (fst R, (fst (snd R), snd (snd R)))"
    by (simp add: R_def)
  have mem: "EvOutputGuardrail 1 ''Modified output'' (Inr deny_result) \<in> set (snd (snd R))"
    unfolding R_def by code_simp
  have dis: "\<not> og_Allowed deny_result" by (simp add: deny_result_def)
  note C8_output_guardrails [THEN conjunct2, THEN conjunct2, THEN conjunct2, THEN conjunct2,
      rule_format, OF run mem dis]
  then have lst: "last (snd (snd R)) = EvOutputGuardrail 1 ''Modified output'' (Inr deny_result)"
    and er: "\<exists>err. fst R = Inl err \<and> errors_Is err ErrGuardrailTripwire"
    by blast+
  from lt t l1 nt lp ps res run mem dis lst er show ?thesis by blast
qed

section \<open>C9: validation of the arguments of a transfer\<close>




section \<open>C10: unknown tools and failing tools\<close>



end
